theory Spec2Isabelle
  imports Main "HOL-Library.Word"
begin

unbundle bit_operations_syntax

section \<open>The journaling tool of project.c\<close>

text \<open>
  The program keeps its whole state in one image file. The model is the file's content, a
  list of bytes whose length is the file's size. The conventions of the embedding:
  \<^item> \<open>lseek\<close> followed by \<open>read\<close> of \<open>n\<close> bytes is \<open>pread\<close>: it yields the bytes when the
    file holds all \<open>n\<close> of them and \<open>None\<close> otherwise (the short read on which the source
    calls \<open>die\<close>);
  \<^item> \<open>lseek\<close> followed by \<open>write\<close> is \<open>pwrite\<close>: it overwrites in place and extends the
    file, zero-filling a gap, when the range ends past the end of the file;
  \<^item> a failure of the operating system itself (an I/O error on a readable file) is not
    modelled;
  \<^item> integers are laid out little-endian, and the structs have no hidden padding (their
    explicit \<open>_pad\<close> members make every size a multiple of four);
  \<^item> offsets are computed as the source computes them, in 32-bit unsigned arithmetic.
\<close>

type_synonym u8 = "8 word"
type_synonym u16 = "16 word"
type_synonym u32 = "32 word"
type_synonym disk = "u8 list"

subsection \<open>Constants\<close>

definition BLOCK_SIZE :: nat where "BLOCK_SIZE = 4096"
definition INODE_SIZE :: nat where "INODE_SIZE = 128"
definition NAME_LEN :: nat where "NAME_LEN = 28"
definition DIRENT_SIZE :: nat where "DIRENT_SIZE = 32"
definition JOURNAL_MAGIC :: u32 where "JOURNAL_MAGIC = 0x4A524E4C"
definition REC_DATA :: u16 where "REC_DATA = 0xD0DA"
definition REC_COMMIT :: u16 where "REC_COMMIT = 0xC0DE"
definition JOURNAL_BLOCKS :: nat where "JOURNAL_BLOCKS = 16"
definition JOURNAL_HEADER_SIZE :: nat where "JOURNAL_HEADER_SIZE = 8"
definition DATA_RECORD_SIZE :: nat where "DATA_RECORD_SIZE = 4104"
definition COMMIT_RECORD_SIZE :: nat where "COMMIT_RECORD_SIZE = 4"

subsection \<open>Structs\<close>

record superblock =
  sb_magic :: u32
  block_size :: u32
  total_blocks :: u32
  inode_count :: u32
  journal_block :: u32
  inode_bitmap :: u32
  data_bitmap :: u32
  inode_start :: u32
  data_start :: u32

record inode =
  i_type :: u16
  i_links :: u16
  i_size :: u32
  i_direct :: "u32 list"
  i_ctime :: u32
  i_mtime :: u32

record journal_header =
  jh_magic :: u32
  nbytes_used :: u32

record rec_header =
  rh_type :: u16
  rh_size :: u16

subsection \<open>Byte layout\<close>

definition enc16 :: "u16 \<Rightarrow> u8 list" where
  "enc16 w = [ucast w, ucast (drop_bit 8 w)]"

definition enc32 :: "u32 \<Rightarrow> u8 list" where
  "enc32 w = [ucast w, ucast (drop_bit 8 w), ucast (drop_bit 16 w), ucast (drop_bit 24 w)]"

definition dec16 :: "u8 list \<Rightarrow> u16" where
  "dec16 bs = ucast (bs ! 0) OR push_bit 8 (ucast (bs ! 1))"

definition dec32 :: "u8 list \<Rightarrow> u32" where
  "dec32 bs = ucast (bs ! 0) OR push_bit 8 (ucast (bs ! 1)) OR push_bit 16 (ucast (bs ! 2))
                OR push_bit 24 (ucast (bs ! 3))"

text \<open>\<open>struct inode\<close>: 2 + 2 + 4 + 8 * 4 + 4 + 4 bytes of fields and 80 of padding.\<close>

definition enc_inode :: "inode \<Rightarrow> u8 list" where
  "enc_inode ino = enc16 (i_type ino) @ enc16 (i_links ino) @ enc32 (i_size ino)
                     @ concat (map enc32 (i_direct ino))
                     @ enc32 (i_ctime ino) @ enc32 (i_mtime ino) @ replicate 80 0"

definition enc_journal_header :: "journal_header \<Rightarrow> u8 list" where
  "enc_journal_header jh = enc32 (jh_magic jh) @ enc32 (nbytes_used jh)"

definition dec_journal_header :: "u8 list \<Rightarrow> journal_header" where
  "dec_journal_header bs = \<lparr>jh_magic = dec32 (take 4 bs), nbytes_used = dec32 (drop 4 bs)\<rparr>"

definition dec_rec_header :: "u8 list \<Rightarrow> rec_header" where
  "dec_rec_header bs = \<lparr>rh_type = dec16 (take 2 bs), rh_size = dec16 (drop 2 bs)\<rparr>"

text \<open>\<open>struct data_record\<close>: the record header, the block number, the block.\<close>

definition enc_data_record :: "u32 \<Rightarrow> u8 list \<Rightarrow> u8 list" where
  "enc_data_record block_no data =
     enc16 REC_DATA @ enc16 (of_nat DATA_RECORD_SIZE) @ enc32 block_no @ data"

definition enc_commit_record :: "u8 list" where
  "enc_commit_record = enc16 REC_COMMIT @ enc16 (of_nat COMMIT_RECORD_SIZE)"

text \<open>The fields of a data record as \<open>cmd_install\<close> reads them back.\<close>

definition dr_block_no :: "u8 list \<Rightarrow> u32" where
  "dr_block_no rec = dec32 (take 4 (drop 4 rec))"

definition dr_data :: "u8 list \<Rightarrow> u8 list" where
  "dr_data rec = drop 8 rec"

subsection \<open>The image file\<close>

definition pread :: "disk \<Rightarrow> nat \<Rightarrow> nat \<Rightarrow> u8 list option" where
  "pread d off n = (if off + n \<le> length d then Some (take n (drop off d)) else None)"

definition pwrite :: "disk \<Rightarrow> nat \<Rightarrow> u8 list \<Rightarrow> disk" where
  "pwrite d off bs =
     take off d @ replicate (off - length d) 0 @ bs @ drop (off + length bs) d"

text \<open>\<open>blk * BLOCK_SIZE\<close> is a product of a \<open>uint32_t\<close> and an \<open>int\<close>: it wraps at \<open>2^32\<close>.\<close>

definition block_off :: "u32 \<Rightarrow> nat" where
  "block_off blk = unat (blk * of_nat BLOCK_SIZE)"

definition read_block :: "disk \<Rightarrow> u32 \<Rightarrow> u8 list option" where
  "read_block d blk = pread d (block_off blk) BLOCK_SIZE"

definition write_block :: "disk \<Rightarrow> u32 \<Rightarrow> u8 list \<Rightarrow> disk" where
  "write_block d blk buf = pwrite d (block_off blk) buf"

text \<open>\<open>memcpy(buf + off, src, length src)\<close> into a local buffer that holds the range.\<close>

definition store_at :: "u8 list \<Rightarrow> nat \<Rightarrow> u8 list \<Rightarrow> u8 list" where
  "store_at buf off src = take off buf @ src @ drop (off + length src) buf"

subsection \<open>Bitmaps\<close>

text \<open>
  \<open>bitmap_find_free\<close> returns an index or \<open>-1\<close>. Reading \<open>bmap[i/8]\<close> past the end of the
  buffer is undefined in C; the model reports it as a result of its own. The one caller passes
  a 4096-byte buffer and \<open>max = 64\<close>.
\<close>

datatype find_result = Free_At nat | No_Free_Slot | Read_Past_End

function bitmap_scan :: "u8 list \<Rightarrow> nat \<Rightarrow> nat \<Rightarrow> find_result" where
  "bitmap_scan bmap maxn i =
     (if i < maxn then
        (if length bmap \<le> i div 8 then Read_Past_End
         else if bmap ! (i div 8) AND push_bit (i mod 8) 1 = 0 then Free_At i
         else bitmap_scan bmap maxn (Suc i))
      else No_Free_Slot)"
  by pat_completeness auto
termination
  by (relation "measure (\<lambda>(bmap, maxn, i). maxn - i)") auto

declare bitmap_scan.simps [simp del]

definition bitmap_find_free :: "u8 list \<Rightarrow> int \<Rightarrow> find_result" where
  "bitmap_find_free bmap maxn = bitmap_scan bmap (nat maxn) 0"

text \<open>\<open>bitmap_set\<close> is only called with an index that \<open>bitmap_find_free\<close> returned.\<close>

definition bitmap_set :: "u8 list \<Rightarrow> nat \<Rightarrow> u8 list" where
  "bitmap_set bmap idx = bmap[idx div 8 := bmap ! (idx div 8) OR push_bit (idx mod 8) 1]"

text \<open>What it means for bit \<open>i\<close> of a bitmap to be set, for stating properties.\<close>

definition bitmap_test :: "u8 list \<Rightarrow> nat \<Rightarrow> bool" where
  "bitmap_test bmap i = bit (bmap ! (i div 8)) (i mod 8)"

subsection \<open>Journal management\<close>

text \<open>
  The three functions that read the journal header do so with the same two calls; the model
  names them once. \<open>None\<close> is the short read, on which each caller dies.
\<close>

definition read_journal_header :: "superblock \<Rightarrow> disk \<Rightarrow> journal_header option" where
  "read_journal_header sb d =
     map_option dec_journal_header (pread d (block_off (journal_block sb)) JOURNAL_HEADER_SIZE)"

definition write_journal_header :: "superblock \<Rightarrow> journal_header \<Rightarrow> disk \<Rightarrow> disk" where
  "write_journal_header sb jh d = pwrite d (block_off (journal_block sb)) (enc_journal_header jh)"

text \<open>\<open>None\<close>: the process died, before anything was written.\<close>

definition init_journal_if_needed :: "superblock \<Rightarrow> disk \<Rightarrow> disk option" where
  "init_journal_if_needed sb d =
     (case read_journal_header sb d of
        None \<Rightarrow> None
      | Some jh \<Rightarrow>
          if jh_magic jh \<noteq> JOURNAL_MAGIC
          then Some (write_journal_header sb
                       (jh\<lparr>jh_magic := JOURNAL_MAGIC, nbytes_used := of_nat JOURNAL_HEADER_SIZE\<rparr>) d)
          else Some d)"

datatype append_status = Appended | Journal_Full | Append_Died

text \<open>
  \<open>jh.nbytes_used + size\<close> is computed in \<open>size_t\<close> and cannot wrap; the offset of the record,
  \<open>sb->journal_block * BLOCK_SIZE + jh.nbytes_used\<close>, and \<open>jh.nbytes_used += size\<close> are 32-bit.
\<close>

definition append_to_journal :: "superblock \<Rightarrow> u8 list \<Rightarrow> disk \<Rightarrow> append_status \<times> disk" where
  "append_to_journal sb record d =
     (case read_journal_header sb d of
        None \<Rightarrow> (Append_Died, d)
      | Some jh \<Rightarrow>
          if unat (nbytes_used jh) + length record > JOURNAL_BLOCKS * BLOCK_SIZE
          then (Journal_Full, d)
          else
            let d1 = pwrite d (unat (journal_block sb * of_nat BLOCK_SIZE + nbytes_used jh)) record;
                jh' = jh\<lparr>nbytes_used := nbytes_used jh + of_nat (length record)\<rparr>
            in (Appended, write_journal_header sb jh' d1))"

text \<open>
  \<open>cmd_create\<close> appends its five records one after the other and returns at the first
  append that does not succeed.
\<close>

fun append_records :: "superblock \<Rightarrow> u8 list list \<Rightarrow> disk \<Rightarrow> append_status \<times> disk" where
  "append_records sb [] d = (Appended, d)"
| "append_records sb (r # rs) d =
     (case append_to_journal sb r d of
        (Appended, d') \<Rightarrow> append_records sb rs d'
      | (st, d') \<Rightarrow> (st, d'))"

subsection \<open>The create command\<close>

text \<open>
  \<open>strncpy(dst, src, n)\<close>: the characters of the C string \<open>src\<close> (up to its terminator), at
  most \<open>n\<close> of them, and zero bytes up to \<open>n\<close>.
\<close>

definition strncpy :: "u8 list \<Rightarrow> nat \<Rightarrow> u8 list" where
  "strncpy src n =
     (let s = takeWhile (\<lambda>c. c \<noteq> 0) src in take n s @ replicate (n - length s) 0)"

text \<open>
  The outcomes of \<open>cmd_create\<close>: the transaction was journalled; an append found the journal
  full and the function returned; the process died (\<open>die\<close>); or the directory entry was
  written outside the 4096-byte local buffer \<open>new_dir_block\<close>, where C leaves the behaviour
  undefined and the model stops.
\<close>

datatype create_outcome = Created | Create_Journal_Full | Create_Died | Create_Overrun

text \<open>The three calls of \<open>time(NULL)\<close> are three arguments, in the order of the calls.\<close>

definition cmd_create ::
  "superblock \<Rightarrow> u8 list \<Rightarrow> u32 \<Rightarrow> u32 \<Rightarrow> u32 \<Rightarrow> disk \<Rightarrow> create_outcome \<times> disk" where
  "cmd_create sb filename now_ctime now_mtime now_root d0 =
     (case init_journal_if_needed sb d0 of
        None \<Rightarrow> (Create_Died, d0)
      | Some d \<Rightarrow>
     (case read_block d (inode_bitmap sb) of
        None \<Rightarrow> (Create_Died, d)
      | Some inode_bmap \<Rightarrow>
     (case read_block d (data_bitmap sb) of
        None \<Rightarrow> (Create_Died, d)
      | Some data_bmap \<Rightarrow>
     (case bitmap_find_free inode_bmap 64 of
        No_Free_Slot \<Rightarrow> (Create_Died, d)
      | Read_Past_End \<Rightarrow> (Create_Overrun, d)
      | Free_At new_ino \<Rightarrow>
     (let new_inode_bmap = bitmap_set inode_bmap new_ino in
      case read_block d (inode_start sb) of
        None \<Rightarrow> (Create_Died, d)
      | Some inode_block_buf \<Rightarrow>
     (let root_size = dec32 (take 4 (drop 4 inode_block_buf));
          root_direct0 = dec32 (take 4 (drop 8 inode_block_buf)) in
      case read_block d root_direct0 of
        None \<Rightarrow> (Create_Died, d)
      | Some dir_block \<Rightarrow>
     (let new_inode = \<lparr>i_type = 1, i_links = 1, i_size = 0, i_direct = replicate 8 0,
                        i_ctime = now_ctime, i_mtime = now_mtime\<rparr>;
          inode_block_num = inode_start sb + of_nat (new_ino div 32);
          inode_offset = (new_ino mod 32) * INODE_SIZE in
      case read_block d inode_block_num of
        None \<Rightarrow> (Create_Died, d)
      | Some old_inode_block \<Rightarrow>
     (let new_inode_block = store_at old_inode_block inode_offset (enc_inode new_inode);
          entries = unat root_size div DIRENT_SIZE in
      if BLOCK_SIZE < entries * DIRENT_SIZE + DIRENT_SIZE then (Create_Overrun, d)
      else
        let de_inode = store_at dir_block (entries * DIRENT_SIZE) (enc32 (of_nat new_ino));
            de_name = store_at de_inode (entries * DIRENT_SIZE + 4) (strncpy filename (NAME_LEN - 1));
            new_dir_block = de_name[entries * DIRENT_SIZE + 4 + (NAME_LEN - 1) := 0];
            new_size = store_at inode_block_buf 4 (enc32 (root_size + of_nat DIRENT_SIZE));
            new_root_inode_block = store_at new_size 44 (enc32 now_root);
            dr1 = enc_data_record (inode_bitmap sb) new_inode_bmap;
            dr2 = enc_data_record inode_block_num new_inode_block;
            dr3 = enc_data_record root_direct0 new_dir_block;
            dr4 = enc_data_record (inode_start sb) new_root_inode_block;
            cr = enc_commit_record
        in (case append_records sb [dr1, dr2, dr3, dr4, cr] d of
              (Appended, d') \<Rightarrow> (Created, d')
            | (Journal_Full, d') \<Rightarrow> (Create_Journal_Full, d')
            | (Append_Died, d') \<Rightarrow> (Create_Died, d'))))))))))"

subsection \<open>The install command\<close>

text \<open>
  How the scan of \<open>cmd_install\<close> ends: the position reached \<open>nbytes_used\<close>; a record of
  another type made it \<open>break\<close>; a read was short and the process died. A scan that never
  ends (a record of size 0 is enough) is the value \<open>None\<close>.

  The loop variables are arguments. \<open>pos += rh.size\<close> adds a 16-bit size to a 32-bit position.
  The branch of a commit record sets \<open>in_transaction\<close> to 1 on entry and to 0 at its end,
  and reads it nowhere in between: the next iteration starts with the flag cleared.
\<close>

datatype scan_end = Scan_Done | Scan_Unknown u16 | Scan_Died

partial_function (option) install_loop ::
  "superblock \<Rightarrow> u32 \<Rightarrow> u32 \<Rightarrow> bool \<Rightarrow> disk \<Rightarrow> (scan_end \<times> disk) option" where
  "install_loop sb used pos in_transaction d =
     (if pos < used then
        (case pread d (unat (journal_block sb * of_nat BLOCK_SIZE + pos)) 4 of
           None \<Rightarrow> Some (Scan_Died, d)
         | Some rhb \<Rightarrow>
             if rh_type (dec_rec_header rhb) = REC_DATA then
               (case pread d (unat (journal_block sb * of_nat BLOCK_SIZE + pos)) DATA_RECORD_SIZE of
                  None \<Rightarrow> Some (Scan_Died, d)
                | Some dr \<Rightarrow>
                    install_loop sb used (pos + ucast (rh_size (dec_rec_header rhb))) in_transaction
                      (if in_transaction then write_block d (dr_block_no dr) (dr_data dr) else d))
             else if rh_type (dec_rec_header rhb) = REC_COMMIT then
               (case pread d (unat (journal_block sb * of_nat BLOCK_SIZE + pos)) COMMIT_RECORD_SIZE of
                  None \<Rightarrow> Some (Scan_Died, d)
                | Some cr \<Rightarrow>
                    install_loop sb used (pos + ucast (rh_size (dec_rec_header rhb))) False d)
             else Some (Scan_Unknown (rh_type (dec_rec_header rhb)), d))
      else Some (Scan_Done, d))"

text \<open>
  The outcomes of \<open>cmd_install\<close>: the process exited with status 1; the journal was empty;
  the scan ended and the header was reset, after the message about an unknown record type
  when the argument names one.
\<close>

datatype install_outcome = Install_Died | Journal_Empty | Applied "u16 option"

definition cmd_install :: "superblock \<Rightarrow> disk \<Rightarrow> (install_outcome \<times> disk) option" where
  "cmd_install sb d =
     (case read_journal_header sb d of
        None \<Rightarrow> Some (Install_Died, d)
      | Some jh \<Rightarrow>
          if jh_magic jh \<noteq> JOURNAL_MAGIC then Some (Install_Died, d)
          else if nbytes_used jh = of_nat JOURNAL_HEADER_SIZE then Some (Journal_Empty, d)
          else
            (case install_loop sb (nbytes_used jh) (of_nat JOURNAL_HEADER_SIZE) False d of
               None \<Rightarrow> None
             | Some (Scan_Died, d1) \<Rightarrow> Some (Install_Died, d1)
             | Some (Scan_Done, d1) \<Rightarrow>
                 Some (Applied None,
                       write_journal_header sb (jh\<lparr>nbytes_used := of_nat JOURNAL_HEADER_SIZE\<rparr>) d1)
             | Some (Scan_Unknown t, d1) \<Rightarrow>
                 Some (Applied (Some t),
                       write_journal_header sb (jh\<lparr>nbytes_used := of_nat JOURNAL_HEADER_SIZE\<rparr>) d1)))"

subsection \<open>An example image\<close>

text \<open>
  The repository does not contain the formatter; the following image, used as a concrete
  input, follows the layout that the constants of the source fix: the superblock in block 0,
  the journal in blocks 1 to 16, the inode bitmap in block 17, the data bitmap in block 18, the
  inode table in blocks 19 and 20, and 64 data blocks from block 21 on. Inode 0 is the root
  directory, its first direct pointer is block 21, and it holds the entries \<open>.\<close> and \<open>..\<close>.
  The arguments are the size recorded in the root inode (64 for the two entries) and the
  content of the journal region from its first byte on.
\<close>

definition std_sb :: superblock where
  "std_sb = \<lparr>sb_magic = 0x56534653, block_size = 4096, total_blocks = 85, inode_count = 64,
             journal_block = 1, inode_bitmap = 17, data_bitmap = 18, inode_start = 19,
             data_start = 21\<rparr>"

definition enc_superblock :: "superblock \<Rightarrow> u8 list" where
  "enc_superblock sb =
     enc32 (sb_magic sb) @ enc32 (block_size sb) @ enc32 (total_blocks sb) @ enc32 (inode_count sb)
     @ enc32 (journal_block sb) @ enc32 (inode_bitmap sb) @ enc32 (data_bitmap sb)
     @ enc32 (inode_start sb) @ enc32 (data_start sb) @ replicate 92 0"

definition pad_to :: "nat \<Rightarrow> u8 list \<Rightarrow> u8 list" where
  "pad_to n bs = bs @ replicate (n - length bs) 0"

definition root_inode :: "u32 \<Rightarrow> inode" where
  "root_inode sz = \<lparr>i_type = 2, i_links = 2, i_size = sz, i_direct = 21 # replicate 7 0,
                     i_ctime = 0, i_mtime = 0\<rparr>"

definition enc_dirent :: "u32 \<Rightarrow> u8 list \<Rightarrow> u8 list" where
  "enc_dirent ino name = enc32 ino @ pad_to 28 name"

definition formatted_image :: "u32 \<Rightarrow> u8 list \<Rightarrow> disk" where
  "formatted_image root_size journal =
     pad_to 4096 (enc_superblock std_sb)
     @ pad_to 65536 journal
     @ pad_to 4096 [1]
     @ pad_to 4096 [1]
     @ pad_to 4096 (enc_inode (root_inode root_size))
     @ pad_to 4096 []
     @ pad_to 4096 (enc_dirent 0 [0x2E] @ enc_dirent 0 [0x2E, 0x2E])
     @ replicate (63 * 4096) 0"

abbreviation example_image :: "u8 list \<Rightarrow> disk" where
  "example_image \<equiv> formatted_image 64"

subsection \<open>Journals written record by record\<close>

text \<open>
  The two kinds of record that \<open>cmd_create\<close> appends, for stating what a journal holds. A
  data record is well formed when its payload is one block.
\<close>

datatype jrecord = Data_Record u32 "u8 list" | Commit_Record

fun enc_record :: "jrecord \<Rightarrow> u8 list" where
  "enc_record (Data_Record block_no data) = enc_data_record block_no data"
| "enc_record Commit_Record = enc_commit_record"

fun wf_record :: "jrecord \<Rightarrow> bool" where
  "wf_record (Data_Record block_no data) = (length data = BLOCK_SIZE)"
| "wf_record Commit_Record = True"

definition enc_records :: "jrecord list \<Rightarrow> u8 list" where
  "enc_records recs = concat (map enc_record recs)"

text \<open>The content of a journal region: an initialised header that counts the records.\<close>

definition journal_of :: "jrecord list \<Rightarrow> u8 list" where
  "journal_of recs =
     enc_journal_header
       \<lparr>jh_magic = JOURNAL_MAGIC,
        nbytes_used = of_nat (JOURNAL_HEADER_SIZE + length (enc_records recs))\<rparr>
     @ enc_records recs"

subsection \<open>The two phases of the create command\<close>

text \<open>
  For the proofs, \<open>cmd_create\<close> is cut in two after the journal header has been made valid:
  \<open>create_transaction\<close> is everything up to the first append (the reads, the allocation and
  the four block images, or the outcome with which the function stops), and the rest is the
  five appends. The lemma \<open>cmd_create_two_phases\<close> shows that this is the same function.
\<close>

definition create_transaction ::
  "superblock \<Rightarrow> u8 list \<Rightarrow> u32 \<Rightarrow> u32 \<Rightarrow> u32 \<Rightarrow> disk \<Rightarrow> create_outcome + jrecord list" where
  "create_transaction sb filename now_ctime now_mtime now_root d =
     (case read_block d (inode_bitmap sb) of
        None \<Rightarrow> Inl Create_Died
      | Some inode_bmap \<Rightarrow>
     (case read_block d (data_bitmap sb) of
        None \<Rightarrow> Inl Create_Died
      | Some data_bmap \<Rightarrow>
     (case bitmap_find_free inode_bmap 64 of
        No_Free_Slot \<Rightarrow> Inl Create_Died
      | Read_Past_End \<Rightarrow> Inl Create_Overrun
      | Free_At new_ino \<Rightarrow>
     (case read_block d (inode_start sb) of
        None \<Rightarrow> Inl Create_Died
      | Some inode_block_buf \<Rightarrow>
     (case read_block d (dec32 (take 4 (drop 8 inode_block_buf))) of
        None \<Rightarrow> Inl Create_Died
      | Some dir_block \<Rightarrow>
     (case read_block d (inode_start sb + of_nat (new_ino div 32)) of
        None \<Rightarrow> Inl Create_Died
      | Some old_inode_block \<Rightarrow>
     (let root_size = dec32 (take 4 (drop 4 inode_block_buf));
          entries = unat root_size div DIRENT_SIZE in
      if BLOCK_SIZE < entries * DIRENT_SIZE + DIRENT_SIZE then Inl Create_Overrun
      else Inr
        [Data_Record (inode_bitmap sb) (bitmap_set inode_bmap new_ino),
         Data_Record (inode_start sb + of_nat (new_ino div 32))
           (store_at old_inode_block ((new_ino mod 32) * INODE_SIZE)
              (enc_inode \<lparr>i_type = 1, i_links = 1, i_size = 0, i_direct = replicate 8 0,
                          i_ctime = now_ctime, i_mtime = now_mtime\<rparr>)),
         Data_Record (dec32 (take 4 (drop 8 inode_block_buf)))
           ((store_at (store_at dir_block (entries * DIRENT_SIZE) (enc32 (of_nat new_ino)))
               (entries * DIRENT_SIZE + 4) (strncpy filename (NAME_LEN - 1)))
              [entries * DIRENT_SIZE + 4 + (NAME_LEN - 1) := 0]),
         Data_Record (inode_start sb)
           (store_at (store_at inode_block_buf 4 (enc32 (root_size + of_nat DIRENT_SIZE)))
              44 (enc32 now_root)),
         Commit_Record])))))))"

fun create_result :: "append_status \<times> disk \<Rightarrow> create_outcome \<times> disk" where
  "create_result (Appended, d) = (Created, d)"
| "create_result (Journal_Full, d) = (Create_Journal_Full, d)"
| "create_result (Append_Died, d) = (Create_Died, d)"

text \<open>
  The count of journal bytes after appending records of the given lengths to a journal that
  uses \<open>u\<close> bytes, stopping at the first that does not fit, and whether all of them fit.
\<close>

fun used_after :: "nat \<Rightarrow> nat list \<Rightarrow> nat" where
  "used_after u [] = u"
| "used_after u (n # ns) =
     (if JOURNAL_BLOCKS * BLOCK_SIZE < u + n then u else used_after (u + n) ns)"

fun all_fit :: "nat \<Rightarrow> nat list \<Rightarrow> bool" where
  "all_fit u [] = True"
| "all_fit u (n # ns) =
     (if JOURNAL_BLOCKS * BLOCK_SIZE < u + n then False else all_fit (u + n) ns)"

text \<open>
  Two images agree outside the journal region: the second is at least as long, extends the
  first within the journal region only, and has the same bytes elsewhere.
\<close>

definition same_outside_journal :: "superblock \<Rightarrow> disk \<Rightarrow> disk \<Rightarrow> bool" where
  "same_outside_journal sb d d' \<longleftrightarrow>
     length d \<le> length d' \<and>
     length d' \<le> max (length d) (block_off (journal_block sb) + JOURNAL_BLOCKS * BLOCK_SIZE) \<and>
     (\<forall>i<length d. i < block_off (journal_block sb) \<or>
                    block_off (journal_block sb) + JOURNAL_BLOCKS * BLOCK_SIZE \<le> i
        \<longrightarrow> d' ! i = d ! i)"

subsection \<open>A sequence of create calls\<close>

text \<open>
  The tool runs one command per invocation; a sequence of invocations of \<open>create\<close> with the
  given names passes the image from each to the next. The clock is the same for all.
\<close>

fun create_all :: "superblock \<Rightarrow> u8 list list \<Rightarrow> u32 \<Rightarrow> disk \<Rightarrow> disk" where
  "create_all sb [] now d = d"
| "create_all sb (filename # rest) now d =
     create_all sb rest now (snd (cmd_create sb filename now now now d))"

definition foo_txt :: "u8 list" where
  "foo_txt = [0x66, 0x6F, 0x6F, 0x2E, 0x74, 0x78, 0x74]"

section \<open>Bytes and words\<close>

lemma dec32_enc32 [simp]: "dec32 (enc32 w) = w"
proof (rule bit_word_eqI)
  fix n assume "n < LENGTH(32)"
  then consider "n < 8" | "8 \<le> n \<and> n < 16" | "16 \<le> n \<and> n < 24" | "24 \<le> n \<and> n < 32"
    by fastforce
  then show "bit (dec32 (enc32 w)) n = bit w n"
    by cases (auto simp: dec32_def enc32_def bit_simps)
qed

lemma dec16_enc16 [simp]: "dec16 (enc16 w) = w"
proof (rule bit_word_eqI)
  fix n assume "n < LENGTH(16)"
  then consider "n < 8" | "8 \<le> n \<and> n < 16"
    by fastforce
  then show "bit (dec16 (enc16 w)) n = bit w n"
    by cases (auto simp: dec16_def enc16_def bit_simps)
qed

lemma length_enc16 [simp]: "length (enc16 w) = 2"
  by (simp add: enc16_def)

lemma length_enc32 [simp]: "length (enc32 w) = 4"
  by (simp add: enc32_def)

section \<open>The bitmap allocator\<close>

lemma bit_clear_iff: "(b AND 2 ^ k = 0) \<longleftrightarrow> \<not> bit b k" for b :: u8
  using bit_iff_and_push_bit_not_eq_0 [of b k] by simp

lemma bitmap_scan_no_overrun:
  "maxn \<le> 8 * length bmap \<Longrightarrow> bitmap_scan bmap maxn i \<noteq> Read_Past_End"
  by (induction bmap maxn i rule: bitmap_scan.induct) (subst bitmap_scan.simps, auto)

lemma bitmap_scan_Free_At:
  "maxn \<le> 8 * length bmap \<Longrightarrow>
   bitmap_scan bmap maxn i = Free_At k \<longleftrightarrow>
     i \<le> k \<and> k < maxn \<and> \<not> bitmap_test bmap k \<and> (\<forall>j. i \<le> j \<and> j < k \<longrightarrow> bitmap_test bmap j)"
proof (induction bmap maxn i rule: bitmap_scan.induct)
  case (1 bmap maxn i)
  show ?case
  proof (cases "i < maxn")
    case False
    then show ?thesis by (subst bitmap_scan.simps) auto
  next
    case True
    with "1.prems" have inr: "\<not> length bmap \<le> i div 8" by auto
    show ?thesis
    proof (cases "bitmap_test bmap i")
      case False
      then have "bitmap_scan bmap maxn i = Free_At i"
        using True inr by (subst bitmap_scan.simps) (simp add: bit_clear_iff bitmap_test_def)
      moreover have "(i \<le> k \<and> k < maxn \<and> \<not> bitmap_test bmap k \<and> (\<forall>j. i \<le> j \<and> j < k \<longrightarrow> bitmap_test bmap j)) \<longleftrightarrow> k = i"
        using False True by (metis le_neq_implies_less le_refl not_less)
      ultimately show ?thesis by auto
    next
      case set: True
      then have step: "bitmap_scan bmap maxn i = bitmap_scan bmap maxn (Suc i)"
        using True inr by (subst bitmap_scan.simps) (simp add: bit_clear_iff bitmap_test_def)
      have "(\<forall>j. i \<le> j \<and> j < k \<longrightarrow> bitmap_test bmap j) \<longleftrightarrow> (\<forall>j. Suc i \<le> j \<and> j < k \<longrightarrow> bitmap_test bmap j)"
        using set by (metis Suc_leI le_neq_implies_less Suc_leD)
      moreover have "\<not> bitmap_test bmap k \<Longrightarrow> i \<le> k \<longleftrightarrow> Suc i \<le> k"
        using set by (metis Suc_leI le_neq_implies_less Suc_leD)
      ultimately show ?thesis
        using "1.IH"[OF True inr _ "1.prems"] set step
        by (simp add: bit_clear_iff bitmap_test_def) blast
    qed
  qed
qed

lemma bitmap_scan_No_Free_Slot:
  "maxn \<le> 8 * length bmap \<Longrightarrow>
   bitmap_scan bmap maxn i = No_Free_Slot \<longleftrightarrow> (\<forall>j. i \<le> j \<and> j < maxn \<longrightarrow> bitmap_test bmap j)"
proof (induction bmap maxn i rule: bitmap_scan.induct)
  case (1 bmap maxn i)
  show ?case
  proof (cases "i < maxn")
    case False
    then show ?thesis by (subst bitmap_scan.simps) auto
  next
    case True
    with "1.prems" have inr: "\<not> length bmap \<le> i div 8" by auto
    show ?thesis
    proof (cases "bitmap_test bmap i")
      case False
      then have "bitmap_scan bmap maxn i = Free_At i"
        using True inr by (subst bitmap_scan.simps) (simp add: bit_clear_iff bitmap_test_def)
      then show ?thesis using False True by auto
    next
      case set: True
      then have step: "bitmap_scan bmap maxn i = bitmap_scan bmap maxn (Suc i)"
        using True inr by (subst bitmap_scan.simps) (simp add: bit_clear_iff bitmap_test_def)
      have "(\<forall>j. i \<le> j \<and> j < maxn \<longrightarrow> bitmap_test bmap j) \<longleftrightarrow> (\<forall>j. Suc i \<le> j \<and> j < maxn \<longrightarrow> bitmap_test bmap j)"
        using set by (metis Suc_leI le_neq_implies_less Suc_leD)
      then show ?thesis
        using "1.IH"[OF True inr _ "1.prems"] set step
        by (simp add: bit_clear_iff bitmap_test_def)
    qed
  qed
qed

lemma bitmap_test_set:
  assumes "i < 8 * length bmap"
  shows "bitmap_test (bitmap_set bmap i) j \<longleftrightarrow> j = i \<or> bitmap_test bmap j"
proof (cases "j div 8 = i div 8")
  case False
  then show ?thesis by (auto simp: bitmap_test_def bitmap_set_def)
next
  case True
  have "i div 8 < length bmap" using assms by auto
  moreover have "j = i \<longleftrightarrow> j mod 8 = i mod 8"
    using True by (metis div_mult_mod_eq)
  ultimately show ?thesis
    using True by (auto simp: bitmap_test_def bitmap_set_def bit_simps)
qed

lemma length_bitmap_set [simp]: "length (bitmap_set bmap i) = length bmap"
  by (simp add: bitmap_set_def)

text \<open>
  C9. When the buffer holds the \<open>maxn\<close> bits that are scanned, \<open>bitmap_find_free\<close> reports
  no free slot exactly when every bit below \<open>maxn\<close> is set, and otherwise returns the lowest
  index of a clear bit. After \<open>bitmap_set\<close> marks the bit it returned, a second scan returns
  the next clear bit of the original bitmap (the lowest one above), or no free slot when there
  is none.
\<close>

theorem bitmap_find_free_lowest_clear:
  assumes "nat maxn \<le> 8 * length bmap"
  shows "(bitmap_find_free bmap maxn = No_Free_Slot \<longleftrightarrow> (\<forall>j<nat maxn. bitmap_test bmap j)) \<and>
         (\<forall>i. bitmap_find_free bmap maxn = Free_At i \<longleftrightarrow>
                i < nat maxn \<and> \<not> bitmap_test bmap i \<and> (\<forall>j<i. bitmap_test bmap j)) \<and>
         (\<forall>i. bitmap_find_free bmap maxn = Free_At i \<longrightarrow>
            (bitmap_find_free (bitmap_set bmap i) maxn = No_Free_Slot \<longleftrightarrow>
               (\<forall>j<nat maxn. j \<noteq> i \<longrightarrow> bitmap_test bmap j)) \<and>
            (\<forall>k. bitmap_find_free (bitmap_set bmap i) maxn = Free_At k \<longleftrightarrow>
               i < k \<and> k < nat maxn \<and> \<not> bitmap_test bmap k \<and>
               (\<forall>j. i < j \<and> j < k \<longrightarrow> bitmap_test bmap j)))"
proof (intro conjI allI impI)
  show "bitmap_find_free bmap maxn = No_Free_Slot \<longleftrightarrow> (\<forall>j<nat maxn. bitmap_test bmap j)"
    using assms by (simp add: bitmap_find_free_def bitmap_scan_No_Free_Slot)
next
  fix i
  show "bitmap_find_free bmap maxn = Free_At i \<longleftrightarrow>
          i < nat maxn \<and> \<not> bitmap_test bmap i \<and> (\<forall>j<i. bitmap_test bmap j)"
    using assms by (simp add: bitmap_find_free_def bitmap_scan_Free_At)
next
  fix i
  assume found: "bitmap_find_free bmap maxn = Free_At i"
  then have i: "i < nat maxn" "\<not> bitmap_test bmap i" "\<forall>j<i. bitmap_test bmap j"
    using assms by (simp_all add: bitmap_find_free_def bitmap_scan_Free_At)
  then have inr: "i < 8 * length bmap"
    using assms by simp
  have len: "nat maxn \<le> 8 * length (bitmap_set bmap i)"
    using assms by simp
  show "bitmap_find_free (bitmap_set bmap i) maxn = No_Free_Slot \<longleftrightarrow>
          (\<forall>j<nat maxn. j \<noteq> i \<longrightarrow> bitmap_test bmap j)"
    unfolding bitmap_find_free_def bitmap_scan_No_Free_Slot [OF len]
    by (auto simp: bitmap_test_set [OF inr])
  fix k
  show "bitmap_find_free (bitmap_set bmap i) maxn = Free_At k \<longleftrightarrow>
          i < k \<and> k < nat maxn \<and> \<not> bitmap_test bmap k \<and>
          (\<forall>j. i < j \<and> j < k \<longrightarrow> bitmap_test bmap j)"
    unfolding bitmap_find_free_def bitmap_scan_Free_At [OF len] bitmap_test_set [OF inr]
    using i by (metis le0 linorder_neqE_nat)
qed

theorem bitmap_find_free_lowest_clear_witness:
  "nat 8 \<le> 8 * length [0x0B :: u8] \<and>
   bitmap_find_free [0x0B] 8 = Free_At 2 \<and>
   bitmap_find_free (bitmap_set [0x0B] 2) 8 = Free_At 4 \<and>
   \<not> bitmap_test [0x0B] 2 \<and> \<not> bitmap_test [0x0B] 4 \<and> bitmap_test [0x0B] 3"
proof -
  have h: "nat 8 \<le> 8 * length [0x0B :: u8]"
    by simp
  have first: "bitmap_find_free [0x0B] 8 = Free_At 2"
    by code_simp
  have second: "bitmap_find_free (bitmap_set [0x0B] 2) 8 = Free_At 4"
    by code_simp
  from bitmap_find_free_lowest_clear [OF h] first second
  have "\<not> bitmap_test [0x0B] 2" "\<not> bitmap_test [0x0B] 4" "\<forall>j. 2 < j \<and> j < 4 \<longrightarrow> bitmap_test [0x0B] j"
    by blast+
  then show ?thesis
    using h first second by simp
qed

section \<open>Reading and writing the image\<close>

lemma length_pwrite [simp]: "length (pwrite d off bs) = max (length d) (off + length bs)"
  by (auto simp: pwrite_def)

lemma nth_pwrite:
  "i < length (pwrite d off bs) \<Longrightarrow>
   pwrite d off bs ! i =
     (if i < off then (if i < length d then d ! i else 0)
      else if i < off + length bs then bs ! (i - off)
      else d ! i)"
  by (auto simp: pwrite_def nth_append min_def)

lemma nth_pwrite_outside:
  "i < length d \<Longrightarrow> i < off \<or> off + length bs \<le> i \<Longrightarrow> pwrite d off bs ! i = d ! i"
  by (subst nth_pwrite) auto

lemma pread_Some_iff: "pread d off n = Some bs \<longleftrightarrow> off + n \<le> length d \<and> bs = take n (drop off d)"
  by (auto simp: pread_def)

lemma pread_length: "pread d off n = Some bs \<Longrightarrow> length bs = n"
  by (auto simp: pread_def split: if_splits)

lemma pread_pwrite_same [simp]: "pread (pwrite d off bs) off (length bs) = Some bs"
proof -
  have "length (take off d @ replicate (off - length d) 0) = off"
    by auto
  then have "drop off (pwrite d off bs) = bs @ drop (off + length bs) d"
    unfolding pwrite_def by (metis append.assoc append_eq_conv_conj)
  then show ?thesis
    by (simp add: pread_def)
qed

lemma pread_pwrite_other:
  assumes "off' + n \<le> off \<or> off + length bs \<le> off'" and "off' + n \<le> length d"
  shows "pread (pwrite d off bs) off' n = pread d off' n"
proof -
  have "take n (drop off' (pwrite d off bs)) = take n (drop off' d)"
  proof (rule nth_equalityI)
    show "length (take n (drop off' (pwrite d off bs))) = length (take n (drop off' d))"
      using assms by auto
  next
    fix i assume "i < length (take n (drop off' (pwrite d off bs)))"
    then have i: "i < n" by simp
    with assms have "pwrite d off bs ! (off' + i) = d ! (off' + i)"
      by (intro nth_pwrite_outside) auto
    with i assms show "take n (drop off' (pwrite d off bs)) ! i = take n (drop off' d) ! i"
      by simp
  qed
  with assms show ?thesis
    by (simp add: pread_def)
qed

section \<open>The journal header\<close>

lemma length_enc_journal_header [simp]: "length (enc_journal_header jh) = 8"
  by (simp add: enc_journal_header_def)

lemma dec_enc_journal_header [simp]: "dec_journal_header (enc_journal_header jh) = jh"
  by (simp add: dec_journal_header_def enc_journal_header_def)

lemma read_write_journal_header [simp]:
  "read_journal_header sb (write_journal_header sb jh d) = Some jh"
proof -
  have "pread (pwrite d (block_off (journal_block sb)) (enc_journal_header jh))
          (block_off (journal_block sb)) (length (enc_journal_header jh)) = Some (enc_journal_header jh)"
    by (rule pread_pwrite_same)
  then show ?thesis
    by (simp add: read_journal_header_def write_journal_header_def JOURNAL_HEADER_SIZE_def)
qed

lemma read_journal_header_length:
  "read_journal_header sb d = Some jh \<Longrightarrow> block_off (journal_block sb) + 8 \<le> length d"
  by (auto simp: read_journal_header_def pread_def JOURNAL_HEADER_SIZE_def split: if_splits)

lemma journal_capacity: "JOURNAL_BLOCKS * BLOCK_SIZE = 65536"
  by (simp add: JOURNAL_BLOCKS_def BLOCK_SIZE_def)

lemma unat_used_plus:
  assumes "unat (u :: u32) + n \<le> 65536"
  shows "unat (u + of_nat n) = unat u + n"
proof -
  have "unat u + n < 2 ^ 32" using assms by simp
  then show ?thesis
    by (simp add: unat_word_ariths unat_of_nat take_bit_nat_eq_self)
qed

lemma journal_offset:
  assumes "block_off (journal_block sb) + 65536 < 2 ^ 32" and "unat (u :: u32) \<le> 65536"
  shows "unat (journal_block sb * of_nat BLOCK_SIZE + u) = block_off (journal_block sb) + unat u"
proof -
  have "unat (journal_block sb * of_nat BLOCK_SIZE) + unat u < 2 ^ 32"
    using assms by (simp add: block_off_def)
  then show ?thesis
    by (simp add: block_off_def unat_word_ariths take_bit_nat_eq_self)
qed

section \<open>The example image\<close>

lemma pread_append_left: "off + n \<le> length xs \<Longrightarrow> pread (xs @ ys) off n = pread xs off n"
  by (simp add: pread_def)

lemma pread_append_right:
  "length xs \<le> off \<Longrightarrow> pread (xs @ ys) off n = pread ys (off - length xs) n"
  by (auto simp: pread_def)

lemma length_pad_to [simp]: "length (pad_to n bs) = max n (length bs)"
  by (auto simp: pad_to_def)

lemma length_enc_superblock [simp]: "length (enc_superblock sb) = 128"
  by (simp add: enc_superblock_def)

lemma block_off_std [simp]: "block_off (journal_block std_sb) = 4096"
  by (simp add: block_off_def std_sb_def BLOCK_SIZE_def)

lemma read_journal_header_example:
  "read_journal_header std_sb (formatted_image sz (enc_journal_header jh @ recs)) = Some jh"
proof -
  have "pread (formatted_image sz (enc_journal_header jh @ recs)) 4096 8 = Some (enc_journal_header jh)"
    unfolding formatted_image_def
    apply (subst pread_append_right, simp)
    apply (subst pread_append_left, simp)
    apply (simp add: pread_def pad_to_def)
    done
  then show ?thesis
    by (simp add: read_journal_header_def JOURNAL_HEADER_SIZE_def)
qed

lemma length_enc_commit_record [simp]: "length enc_commit_record = 4"
  by (simp add: enc_commit_record_def)

section \<open>Appending to the journal\<close>

text \<open>
  C7. Let the journal header be readable, with \<open>nbytes_used jh\<close> bytes used. If
  \<open>nbytes_used jh\<close> plus the record's length exceeds the capacity of 16 blocks of 4096 bytes,
  \<open>append_to_journal\<close> fails and the image is unchanged. Otherwise it succeeds; the header on
  disk then records \<open>nbytes_used jh\<close> plus the length, without wrap-around and still within
  the capacity; and, when the header's count is at least the header's own size and the
  journal region lies below \<open>2^32\<close>, the record can be read back at offset \<open>nbytes_used jh\<close> of
  the journal region and every byte of the image outside the header's count and the record is
  as before.
\<close>

theorem append_to_journal_checks_capacity:
  assumes "read_journal_header sb d = Some jh"
  shows "(JOURNAL_BLOCKS * BLOCK_SIZE < unat (nbytes_used jh) + length record \<longrightarrow>
            append_to_journal sb record d = (Journal_Full, d)) \<and>
         (unat (nbytes_used jh) + length record \<le> JOURNAL_BLOCKS * BLOCK_SIZE \<longrightarrow>
            (\<exists>d'. append_to_journal sb record d = (Appended, d') \<and>
               read_journal_header sb d' =
                 Some (jh\<lparr>nbytes_used := nbytes_used jh + of_nat (length record)\<rparr>) \<and>
               unat (nbytes_used jh + of_nat (length record)) = unat (nbytes_used jh) + length record \<and>
               unat (nbytes_used jh + of_nat (length record)) \<le> JOURNAL_BLOCKS * BLOCK_SIZE \<and>
               (JOURNAL_HEADER_SIZE \<le> unat (nbytes_used jh) \<and>
                block_off (journal_block sb) + JOURNAL_BLOCKS * BLOCK_SIZE < 2 ^ 32 \<longrightarrow>
                  pread d' (block_off (journal_block sb) + unat (nbytes_used jh)) (length record)
                    = Some record \<and>
                  (\<forall>i<length d.
                     i < block_off (journal_block sb) \<or>
                     block_off (journal_block sb) + JOURNAL_HEADER_SIZE \<le> i \<and>
                       i < block_off (journal_block sb) + unat (nbytes_used jh) \<or>
                     block_off (journal_block sb) + unat (nbytes_used jh) + length record \<le> i
                     \<longrightarrow> d' ! i = d ! i))))"
proof (intro conjI impI)
  assume "JOURNAL_BLOCKS * BLOCK_SIZE < unat (nbytes_used jh) + length record"
  then show "append_to_journal sb record d = (Journal_Full, d)"
    using assms by (simp add: append_to_journal_def)
next
  assume fits: "unat (nbytes_used jh) + length record \<le> JOURNAL_BLOCKS * BLOCK_SIZE"
  let ?J = "block_off (journal_block sb)"
  let ?off = "unat (journal_block sb * of_nat BLOCK_SIZE + nbytes_used jh)"
  let ?jh' = "jh\<lparr>nbytes_used := nbytes_used jh + of_nat (length record)\<rparr>"
  let ?d1 = "pwrite d ?off record"
  let ?d' = "write_journal_header sb ?jh' ?d1"
  have app: "append_to_journal sb record d = (Appended, ?d')"
    using assms fits by (simp add: append_to_journal_def Let_def)
  have used: "unat (nbytes_used jh + of_nat (length record)) = unat (nbytes_used jh) + length record"
    using fits by (simp add: unat_used_plus journal_capacity)
  have readback: "pread ?d' (?J + unat (nbytes_used jh)) (length record) = Some record"
    and frame: "\<forall>i<length d.
                     i < ?J \<or> ?J + JOURNAL_HEADER_SIZE \<le> i \<and> i < ?J + unat (nbytes_used jh) \<or>
                     ?J + unat (nbytes_used jh) + length record \<le> i
                     \<longrightarrow> ?d' ! i = d ! i"
    if h: "JOURNAL_HEADER_SIZE \<le> unat (nbytes_used jh) \<and> ?J + JOURNAL_BLOCKS * BLOCK_SIZE < 2 ^ 32"
  proof -
    have off: "?off = ?J + unat (nbytes_used jh)"
      using h fits by (intro journal_offset) (simp_all add: journal_capacity)
    have "pread ?d' (?J + unat (nbytes_used jh)) (length record)
            = pread ?d1 (?J + unat (nbytes_used jh)) (length record)"
      unfolding write_journal_header_def
      using h by (intro pread_pwrite_other) (simp_all add: JOURNAL_HEADER_SIZE_def off)
    then show "pread ?d' (?J + unat (nbytes_used jh)) (length record) = Some record"
      by (simp add: off [symmetric])
    show "\<forall>i<length d.
                     i < ?J \<or> ?J + JOURNAL_HEADER_SIZE \<le> i \<and> i < ?J + unat (nbytes_used jh) \<or>
                     ?J + unat (nbytes_used jh) + length record \<le> i
                     \<longrightarrow> ?d' ! i = d ! i"
    proof (intro allI impI)
      fix i assume i: "i < length d"
        and out: "i < ?J \<or> ?J + JOURNAL_HEADER_SIZE \<le> i \<and> i < ?J + unat (nbytes_used jh) \<or>
                     ?J + unat (nbytes_used jh) + length record \<le> i"
      have "?d' ! i = ?d1 ! i"
        unfolding write_journal_header_def
        using i out h by (intro nth_pwrite_outside) (auto simp: JOURNAL_HEADER_SIZE_def)
      also have "\<dots> = d ! i"
        using i out h by (intro nth_pwrite_outside) (auto simp: off)
      finally show "?d' ! i = d ! i" .
    qed
  qed
  show "\<exists>d'. append_to_journal sb record d = (Appended, d') \<and>
               read_journal_header sb d' =
                 Some (jh\<lparr>nbytes_used := nbytes_used jh + of_nat (length record)\<rparr>) \<and>
               unat (nbytes_used jh + of_nat (length record)) = unat (nbytes_used jh) + length record \<and>
               unat (nbytes_used jh + of_nat (length record)) \<le> JOURNAL_BLOCKS * BLOCK_SIZE \<and>
               (JOURNAL_HEADER_SIZE \<le> unat (nbytes_used jh) \<and>
                block_off (journal_block sb) + JOURNAL_BLOCKS * BLOCK_SIZE < 2 ^ 32 \<longrightarrow>
                  pread d' (block_off (journal_block sb) + unat (nbytes_used jh)) (length record)
                    = Some record \<and>
                  (\<forall>i<length d.
                     i < block_off (journal_block sb) \<or>
                     block_off (journal_block sb) + JOURNAL_HEADER_SIZE \<le> i \<and>
                       i < block_off (journal_block sb) + unat (nbytes_used jh) \<or>
                     block_off (journal_block sb) + unat (nbytes_used jh) + length record \<le> i
                     \<longrightarrow> d' ! i = d ! i))"
    using app used fits readback frame by (intro exI [of _ ?d']) simp
qed

theorem append_to_journal_checks_capacity_witness:
  "read_journal_header std_sb
     (example_image (enc_journal_header \<lparr>jh_magic = JOURNAL_MAGIC, nbytes_used = 8\<rparr>))
     = Some \<lparr>jh_magic = JOURNAL_MAGIC, nbytes_used = 8\<rparr> \<and>
   (\<exists>d'. append_to_journal std_sb enc_commit_record
            (example_image (enc_journal_header \<lparr>jh_magic = JOURNAL_MAGIC, nbytes_used = 8\<rparr>))
            = (Appended, d') \<and>
         read_journal_header std_sb d' = Some \<lparr>jh_magic = JOURNAL_MAGIC, nbytes_used = 12\<rparr> \<and>
         pread d' 4104 4 = Some enc_commit_record) \<and>
   append_to_journal std_sb enc_commit_record
     (example_image (enc_journal_header \<lparr>jh_magic = JOURNAL_MAGIC, nbytes_used = 65534\<rparr>))
     = (Journal_Full,
        example_image (enc_journal_header \<lparr>jh_magic = JOURNAL_MAGIC, nbytes_used = 65534\<rparr>))"
proof -
  let ?jh = "\<lparr>jh_magic = JOURNAL_MAGIC, nbytes_used = 8\<rparr>"
  let ?full = "\<lparr>jh_magic = JOURNAL_MAGIC, nbytes_used = 65534\<rparr>"
  have h1: "read_journal_header std_sb (example_image (enc_journal_header ?jh)) = Some ?jh"
    using read_journal_header_example [of 64 ?jh "[]"] by simp
  have h2: "read_journal_header std_sb (example_image (enc_journal_header ?full)) = Some ?full"
    using read_journal_header_example [of 64 ?full "[]"] by simp
  show ?thesis
    using h1 append_to_journal_checks_capacity [OF h1, of enc_commit_record]
      append_to_journal_checks_capacity [OF h2, of enc_commit_record]
    by (simp add: journal_capacity JOURNAL_HEADER_SIZE_def) blast
qed

section \<open>The scan of the journal\<close>

lemma install_loop_keeps_image_aux:
  assumes "install_loop sb used pos in_transaction d = Some r"
  shows "\<not> in_transaction \<longrightarrow> snd r = d"
proof (rule install_loop.raw_induct
         [where P = "\<lambda>sb used pos in_transaction d r. \<not> in_transaction \<longrightarrow> snd r = d", OF _ assms])
  fix f sb used pos in_transaction d r
  assume IH: "\<And>sb used pos in_transaction d r.
                 f sb used pos in_transaction d = Some r \<Longrightarrow> \<not> in_transaction \<longrightarrow> snd r = d"
    and step: "(if pos < used then
        (case pread d (unat (journal_block sb * of_nat BLOCK_SIZE + pos)) 4 of
           None \<Rightarrow> Some (Scan_Died, d)
         | Some rhb \<Rightarrow>
             if rh_type (dec_rec_header rhb) = REC_DATA then
               (case pread d (unat (journal_block sb * of_nat BLOCK_SIZE + pos)) DATA_RECORD_SIZE of
                  None \<Rightarrow> Some (Scan_Died, d)
                | Some dr \<Rightarrow>
                    f sb used (pos + ucast (rh_size (dec_rec_header rhb))) in_transaction
                      (if in_transaction then write_block d (dr_block_no dr) (dr_data dr) else d))
             else if rh_type (dec_rec_header rhb) = REC_COMMIT then
               (case pread d (unat (journal_block sb * of_nat BLOCK_SIZE + pos)) COMMIT_RECORD_SIZE of
                  None \<Rightarrow> Some (Scan_Died, d)
                | Some cr \<Rightarrow>
                    f sb used (pos + ucast (rh_size (dec_rec_header rhb))) False d)
             else Some (Scan_Unknown (rh_type (dec_rec_header rhb)), d))
      else Some (Scan_Done, d)) = Some r"
  show "\<not> in_transaction \<longrightarrow> snd r = d"
  proof
    assume "\<not> in_transaction"
    with step show "snd r = d"
      by (auto split: if_splits option.splits dest: IH)
  qed
qed

lemma install_loop_keeps_image:
  "install_loop sb used pos False d = Some (e, d') \<Longrightarrow> d' = d"
  using install_loop_keeps_image_aux by fastforce

lemma write_journal_header_length:
  "block_off (journal_block sb) + 8 \<le> length d \<Longrightarrow> length (write_journal_header sb jh d) = length d"
  by (simp add: write_journal_header_def)

lemma read_block_write_journal_header:
  assumes "block_off blk + BLOCK_SIZE \<le> block_off (journal_block sb) \<or>
           block_off (journal_block sb) + JOURNAL_HEADER_SIZE \<le> block_off blk"
    and "block_off (journal_block sb) + 8 \<le> length d"
  shows "read_block (write_journal_header sb jh d) blk = read_block d blk"
proof (cases "block_off blk + BLOCK_SIZE \<le> length d")
  case True
  then show ?thesis
    unfolding read_block_def write_journal_header_def
    using assms by (intro pread_pwrite_other) (simp_all add: JOURNAL_HEADER_SIZE_def)
next
  case False
  then show ?thesis
    using assms by (simp add: read_block_def pread_def write_journal_header_def)
qed

lemma cmd_install_cases:
  assumes "cmd_install sb d = Some (out, d')"
  shows "(case out of
            Applied t \<Rightarrow> d' = write_journal_header sb \<lparr>jh_magic = JOURNAL_MAGIC, nbytes_used = 8\<rparr> d
                         \<and> block_off (journal_block sb) + 8 \<le> length d
          | _ \<Rightarrow> d' = d)"
proof (cases "read_journal_header sb d")
  case None
  with assms show ?thesis by (auto simp: cmd_install_def)
next
  case (Some jh)
  have len: "block_off (journal_block sb) + 8 \<le> length d"
    using Some by (rule read_journal_header_length)
  show ?thesis
  proof (cases "jh_magic jh \<noteq> JOURNAL_MAGIC \<or> nbytes_used jh = of_nat JOURNAL_HEADER_SIZE")
    case True
    with assms Some show ?thesis by (auto simp: cmd_install_def split: if_splits)
  next
    case False
    then have jh: "jh\<lparr>nbytes_used := of_nat JOURNAL_HEADER_SIZE\<rparr> = \<lparr>jh_magic = JOURNAL_MAGIC, nbytes_used = 8\<rparr>"
      by (simp add: JOURNAL_HEADER_SIZE_def)
    obtain e d1 where loop: "install_loop sb (nbytes_used jh) (of_nat JOURNAL_HEADER_SIZE) False d = Some (e, d1)"
      using assms Some False by (auto simp: cmd_install_def split: option.splits)
    then have "d1 = d" by (rule install_loop_keeps_image)
    with assms Some False loop jh len show ?thesis
      by (cases e) (auto simp: cmd_install_def)
  qed
qed

lemma pread_prefix:
  "pread d off n = Some bs \<Longrightarrow> m \<le> n \<Longrightarrow> pread d off m = Some (take m bs)"
  by (auto simp: pread_def min_def split: if_splits)

lemma pread_suffix:
  "pread d off n = Some bs \<Longrightarrow> m \<le> n \<Longrightarrow> pread d (off + m) (n - m) = Some (drop m bs)"
  by (auto simp: pread_def drop_take add.commute split: if_splits)

lemma length_enc_data_record [simp]: "length (enc_data_record b data) = 8 + length data"
  by (simp add: enc_data_record_def)

lemma dec_rec_header_data [simp]:
  "dec_rec_header (take 4 (enc_data_record b data @ rest)) = \<lparr>rh_type = REC_DATA, rh_size = 4104\<rparr>"
  by (simp add: dec_rec_header_def enc_data_record_def DATA_RECORD_SIZE_def)

lemma dec_rec_header_commit [simp]:
  "dec_rec_header (take 4 (enc_commit_record @ rest)) = \<lparr>rh_type = REC_COMMIT, rh_size = 4\<rparr>"
  by (simp add: dec_rec_header_def enc_commit_record_def COMMIT_RECORD_SIZE_def)

lemma rec_types_differ [simp]: "REC_COMMIT \<noteq> REC_DATA"
  by (simp add: REC_COMMIT_def REC_DATA_def)

lemma length_enc_record: "wf_record r \<Longrightarrow> length (enc_record r) = (case r of Data_Record _ _ \<Rightarrow> 4104 | Commit_Record \<Rightarrow> 4)"
  by (cases r) (simp_all add: BLOCK_SIZE_def)

lemma enc_records_Cons [simp]: "enc_records (r # rs) = enc_record r @ enc_records rs"
  by (simp add: enc_records_def)

lemma enc_records_Nil [simp]: "enc_records [] = []"
  by (simp add: enc_records_def)

lemma unat_of_nat_small: "n \<le> 65536 \<Longrightarrow> unat (of_nat n :: u32) = n"
  by (simp add: unat_of_nat take_bit_nat_eq_self)

lemma install_loop_skips_records:
  assumes nowrap: "block_off (journal_block sb) + 65536 < 2 ^ 32"
    and used: "unat used \<le> 65536"
  shows "list_all wf_record recs \<Longrightarrow>
         pread d (block_off (journal_block sb) + p) (length (enc_records recs)) = Some (enc_records recs) \<Longrightarrow>
         p + length (enc_records recs) \<le> unat used \<Longrightarrow>
         install_loop sb used (of_nat p) False d =
           install_loop sb used (of_nat (p + length (enc_records recs))) False d"
proof (induction recs arbitrary: p)
  case Nil
  then show ?case by simp
next
  case (Cons r rs)
  let ?J = "block_off (journal_block sb)"
  let ?n = "length (enc_record r)"
  have wf: "wf_record r" "list_all wf_record rs"
    using Cons.prems(1) by simp_all
  have n: "?n = 4104 \<or> ?n = 4" "4 \<le> ?n"
    using length_enc_record [OF wf(1)] by (cases r; simp)+
  have p: "p + ?n \<le> unat used" "p < unat used" "p \<le> 65536"
    using Cons.prems(3) n used by auto
  have pos: "unat (of_nat p :: u32) = p"
    using p by (simp add: unat_of_nat_small)
  have lt: "(of_nat p :: u32) < used"
    using p pos by (simp add: word_less_nat_alt)
  have off: "unat (journal_block sb * of_nat BLOCK_SIZE + of_nat p) = ?J + p"
    using journal_offset [OF nowrap, of "of_nat p"] pos p by simp
  have whole: "pread d (?J + p) (?n + length (enc_records rs)) = Some (enc_record r @ enc_records rs)"
    using Cons.prems(2) by simp
  have this_rec: "pread d (?J + p) ?n = Some (enc_record r)"
    using pread_prefix [OF whole, of ?n] by simp
  have hdr: "pread d (?J + p) 4 = Some (take 4 (enc_record r))"
    using pread_prefix [OF this_rec, of 4] n by simp
  have rest: "pread d (?J + (p + ?n)) (length (enc_records rs)) = Some (enc_records rs)"
    using pread_suffix [OF whole, of ?n] by (simp add: add.assoc)
  have next_pos: "(of_nat p :: u32) + of_nat ?n = of_nat (p + ?n)"
    by simp
  have step: "install_loop sb used (of_nat p) False d = install_loop sb used (of_nat (p + ?n)) False d"
  proof (cases r)
    case (Data_Record b data)
    then have len: "?n = 4104" using wf by (simp add: BLOCK_SIZE_def)
    have h: "dec_rec_header (take 4 (enc_record r)) = \<lparr>rh_type = REC_DATA, rh_size = 4104\<rparr>"
      using Data_Record dec_rec_header_data [of b data "[]"] by simp
    show ?thesis
      using lt hdr this_rec h len
      by (subst install_loop.simps) (simp add: off DATA_RECORD_SIZE_def)
  next
    case Commit_Record
    then have len: "?n = 4" by simp
    have h: "dec_rec_header (take 4 (enc_record r)) = \<lparr>rh_type = REC_COMMIT, rh_size = 4\<rparr>"
      using Commit_Record dec_rec_header_commit [of "[]"] by simp
    show ?thesis
      using lt hdr this_rec h len
      by (subst install_loop.simps) (simp add: off COMMIT_RECORD_SIZE_def)
  qed
  also have "\<dots> = install_loop sb used (of_nat (p + ?n + length (enc_records rs))) False d"
    using wf(2) rest Cons.prems(3) by (intro Cons.IH) (simp_all add: add.assoc)
  finally show ?case
    by (simp add: add.assoc)
qed

lemma cmd_install_committed:
  assumes nowrap: "block_off (journal_block sb) + 65536 < 2 ^ 32"
    and hdr: "read_journal_header sb d =
                Some \<lparr>jh_magic = JOURNAL_MAGIC, nbytes_used = of_nat (8 + length (enc_records recs))\<rparr>"
    and wf: "list_all wf_record recs" and ne: "recs \<noteq> []"
    and fits: "8 + length (enc_records recs) \<le> 65536"
    and rd: "pread d (block_off (journal_block sb) + 8) (length (enc_records recs)) = Some (enc_records recs)"
  shows "cmd_install sb d =
           Some (Applied None, write_journal_header sb \<lparr>jh_magic = JOURNAL_MAGIC, nbytes_used = 8\<rparr> d)"
proof -
  define used :: u32 where "used = of_nat (8 + length (enc_records recs))"
  have u: "unat used = 8 + length (enc_records recs)"
    unfolding used_def using fits by (rule unat_of_nat_small)
  have pos_len: "0 < length (enc_records recs)"
  proof (cases recs)
    case Nil
    with ne show ?thesis by simp
  next
    case (Cons r rs)
    with wf have "wf_record r" by simp
    then have "4 \<le> length (enc_record r)"
      using length_enc_record [of r] by (cases r) simp_all
    with Cons show ?thesis by fastforce
  qed
  then have "unat used \<noteq> unat (8 :: u32)"
    using u by simp
  then have ne8: "used \<noteq> 8"
    by metis
  have "install_loop sb used (of_nat 8) False d =
          install_loop sb used (of_nat (8 + length (enc_records recs))) False d"
    using nowrap _ wf rd by (rule install_loop_skips_records) (simp_all add: u fits)
  also have "\<dots> = Some (Scan_Done, d)"
    unfolding used_def [symmetric] by (subst install_loop.simps) simp
  finally have "install_loop sb used 8 False d = Some (Scan_Done, d)"
    by simp
  then show ?thesis
    using hdr ne8 unfolding used_def [symmetric]
    by (simp add: cmd_install_def JOURNAL_HEADER_SIZE_def)
qed

lemma cmd_install_unknown_record:
  assumes nowrap: "block_off (journal_block sb) + 65536 < 2 ^ 32"
    and hdr: "read_journal_header sb d = Some \<lparr>jh_magic = JOURNAL_MAGIC, nbytes_used = used\<rparr>"
    and wf: "list_all wf_record recs"
    and fits: "8 + length (enc_records recs) < unat used" "unat used \<le> 65536"
    and rd: "pread d (block_off (journal_block sb) + 8) (length (enc_records recs)) = Some (enc_records recs)"
    and bad: "pread d (block_off (journal_block sb) + 8 + length (enc_records recs)) 4 = Some rhb"
      "rh_type (dec_rec_header rhb) \<noteq> REC_DATA" "rh_type (dec_rec_header rhb) \<noteq> REC_COMMIT"
  shows "cmd_install sb d =
           Some (Applied (Some (rh_type (dec_rec_header rhb))),
                 write_journal_header sb \<lparr>jh_magic = JOURNAL_MAGIC, nbytes_used = 8\<rparr> d)"
proof -
  let ?p = "8 + length (enc_records recs)"
  define q :: u32 where "q = of_nat ?p"
  have p: "unat q = ?p"
    unfolding q_def using fits by (intro unat_of_nat_small) simp
  have lt: "q < used"
    using fits p by (simp add: word_less_nat_alt)
  have off: "unat (journal_block sb * of_nat BLOCK_SIZE + q) = block_off (journal_block sb) + ?p"
    using journal_offset [OF nowrap, of q] p fits by simp
  have ne8: "used \<noteq> 8"
    using fits by auto
  have "install_loop sb used (of_nat 8) False d = install_loop sb used q False d"
    unfolding q_def
    using nowrap fits(2) wf rd by (rule install_loop_skips_records) (use fits in simp)
  also have "\<dots> = Some (Scan_Unknown (rh_type (dec_rec_header rhb)), d)"
    using lt bad by (subst install_loop.simps) (simp add: off add.assoc)
  finally have "install_loop sb used 8 False d = Some (Scan_Unknown (rh_type (dec_rec_header rhb)), d)"
    by simp
  then show ?thesis
    using hdr ne8 by (simp add: cmd_install_def JOURNAL_HEADER_SIZE_def)
qed

text \<open>Reading the example image.\<close>

lemma pread_example_journal:
  assumes "off + n \<le> length journal"
  shows "pread (formatted_image sz journal) (4096 + off) n = pread journal off n"
proof -
  have "pread (formatted_image sz journal) (4096 + off) n = pread (pad_to 65536 journal) off n"
    unfolding formatted_image_def
    using assms by (subst pread_append_right, simp, subst pread_append_left) simp_all
  also have "\<dots> = pread journal off n"
    unfolding pad_to_def using assms by (rule pread_append_left)
  finally show ?thesis .
qed

lemma read_block_example_inode_bitmap:
  "length journal \<le> 65536 \<Longrightarrow> read_block (formatted_image sz journal) 17 = Some (pad_to 4096 [1])"
  unfolding formatted_image_def read_block_def
  apply (simp add: block_off_def BLOCK_SIZE_def)
  apply (subst pread_append_right, simp)
  apply (subst pread_append_right, simp)
  apply (subst pread_append_left, simp)
  apply (simp add: pread_def)
  done

lemma read_journal_header_journal_of:
  "read_journal_header std_sb (formatted_image sz (journal_of recs)) =
     Some \<lparr>jh_magic = JOURNAL_MAGIC, nbytes_used = of_nat (8 + length (enc_records recs))\<rparr>"
  unfolding journal_of_def JOURNAL_HEADER_SIZE_def by (rule read_journal_header_example)

lemma pread_records_journal_of:
  "pread (formatted_image sz (journal_of recs)) (4096 + 8) (length (enc_records recs)) = Some (enc_records recs)"
  by (subst pread_example_journal) (simp_all add: journal_of_def pread_def)

lemma nowrap_std: "block_off (journal_block std_sb) + 65536 < 2 ^ 32"
  by simp

lemma cmd_install_example:
  assumes "list_all wf_record recs" "recs \<noteq> []" "8 + length (enc_records recs) \<le> 65536"
  shows "cmd_install std_sb (formatted_image sz (journal_of recs)) =
           Some (Applied None,
                 write_journal_header std_sb \<lparr>jh_magic = JOURNAL_MAGIC, nbytes_used = 8\<rparr>
                   (formatted_image sz (journal_of recs)))"
  using nowrap_std read_journal_header_journal_of assms(1,2,3)
  by (rule cmd_install_committed) (use pread_records_journal_of in simp)

lemma pad_to_4096_differ: "pad_to 4096 [1] \<noteq> (pad_to 4096 [3] :: u8 list)"
  by (simp add: pad_to_def)

lemma length_pad_to_4096 [simp]: "length bs \<le> 4096 \<Longrightarrow> length (pad_to 4096 bs) = 4096"
  by (simp add: pad_to_def)

lemma length_concat_enc32 [simp]: "length (concat (map enc32 ws)) = 4 * length ws"
  by (induction ws) simp_all

lemma length_enc_inode [simp]: "length (enc_inode ino) = 96 + 4 * length (i_direct ino)"
  by (simp add: enc_inode_def)

lemma length_enc_dirent [simp]: "length (enc_dirent ino name) = 4 + max 28 (length name)"
  by (simp add: enc_dirent_def)

lemma length_example_image:
  "length journal \<le> 65536 \<Longrightarrow> length (formatted_image sz journal) = 85 * 4096"
  by (simp add: formatted_image_def root_inode_def)

lemma read_write_other_block_std:
  assumes "length journal \<le> 65536"
  shows "read_block (write_journal_header std_sb jh (formatted_image sz journal)) 17
           = Some (pad_to 4096 [1])"
proof -
  have "length (formatted_image sz journal) = 85 * 4096"
    using assms by (rule length_example_image)
  then have "read_block (write_journal_header std_sb jh (formatted_image sz journal)) 17
               = read_block (formatted_image sz journal) 17"
    by (intro read_block_write_journal_header)
       (simp_all add: block_off_def BLOCK_SIZE_def JOURNAL_HEADER_SIZE_def std_sb_def)
  then show ?thesis
    using assms by (simp add: read_block_example_inode_bitmap)
qed

lemma block_off_17 [simp]: "block_off 17 = 69632"
  by (simp add: block_off_def BLOCK_SIZE_def)

section \<open>What install does\<close>

text \<open>
  C2. Whenever \<open>cmd_install\<close> returns, the image is the one it started from, or, when the scan
  ended and the outcome is \<open>Applied\<close>, that image with the journal header rewritten to the
  magic number and \<open>nbytes_used = 8\<close>. The size of the image is unchanged and every block that
  does not overlap the eight bytes of the journal header reads as before. The reason is the
  last conjunct: a scan that starts with the in-transaction flag cleared never writes, since
  the flag is cleared again before the next record is read.
\<close>

theorem cmd_install_only_resets_header:
  assumes "cmd_install sb d = Some (out, d')"
  shows "(case out of
            Applied t \<Rightarrow> d' = write_journal_header sb \<lparr>jh_magic = JOURNAL_MAGIC, nbytes_used = 8\<rparr> d
          | _ \<Rightarrow> d' = d) \<and>
         length d' = length d \<and>
         (\<forall>blk. block_off blk + BLOCK_SIZE \<le> block_off (journal_block sb) \<or>
                block_off (journal_block sb) + JOURNAL_HEADER_SIZE \<le> block_off blk
                \<longrightarrow> read_block d' blk = read_block d blk) \<and>
         (\<forall>used pos e d1. install_loop sb used pos False d = Some (e, d1) \<longrightarrow> d1 = d)"
  using cmd_install_cases [OF assms]
  by (cases out)
     (auto simp: write_journal_header_length read_block_write_journal_header
           dest: install_loop_keeps_image)

theorem cmd_install_only_resets_header_witness:
  "cmd_install std_sb
     (example_image (journal_of [Data_Record 17 (pad_to 4096 [3]), Commit_Record,
                                 Data_Record 18 (pad_to 4096 [7]), Commit_Record]))
     = Some (Applied None,
             write_journal_header std_sb \<lparr>jh_magic = JOURNAL_MAGIC, nbytes_used = 8\<rparr>
               (example_image (journal_of [Data_Record 17 (pad_to 4096 [3]), Commit_Record,
                                           Data_Record 18 (pad_to 4096 [7]), Commit_Record]))) \<and>
   read_block
     (write_journal_header std_sb \<lparr>jh_magic = JOURNAL_MAGIC, nbytes_used = 8\<rparr>
        (example_image (journal_of [Data_Record 17 (pad_to 4096 [3]), Commit_Record,
                                    Data_Record 18 (pad_to 4096 [7]), Commit_Record]))) 17
     = read_block
         (example_image (journal_of [Data_Record 17 (pad_to 4096 [3]), Commit_Record,
                                     Data_Record 18 (pad_to 4096 [7]), Commit_Record])) 17"
proof -
  let ?d = "example_image (journal_of [Data_Record 17 (pad_to 4096 [3]), Commit_Record,
                                       Data_Record 18 (pad_to 4096 [7]), Commit_Record])"
  let ?d' = "write_journal_header std_sb \<lparr>jh_magic = JOURNAL_MAGIC, nbytes_used = 8\<rparr> ?d"
  have run: "cmd_install std_sb ?d = Some (Applied None, ?d')"
    by (rule cmd_install_example) (simp_all add: BLOCK_SIZE_def)
  have "block_off (journal_block std_sb) + JOURNAL_HEADER_SIZE \<le> block_off 17"
    by (simp add: JOURNAL_HEADER_SIZE_def)
  with cmd_install_only_resets_header [OF run] have "read_block ?d' 17 = read_block ?d 17"
    by blast
  with run show ?thesis
    by simp
qed

text \<open>
  C1. The claim is that \<open>cmd_install\<close> applies the data records of every committed
  transaction. On the image whose journal holds one data record for block 17 with a payload
  that starts with the byte 3, followed by a commit record, \<open>cmd_install\<close> ends normally and
  resets the header, and block 17 still holds its old content, which starts with the
  byte 1: the committed record was not applied.
\<close>

theorem cmd_install_applies_nothing:
  "cmd_install std_sb (example_image (journal_of [Data_Record 17 (pad_to 4096 [3]), Commit_Record]))
     = Some (Applied None,
             write_journal_header std_sb \<lparr>jh_magic = JOURNAL_MAGIC, nbytes_used = 8\<rparr>
               (example_image (journal_of [Data_Record 17 (pad_to 4096 [3]), Commit_Record]))) \<and>
   read_block
     (write_journal_header std_sb \<lparr>jh_magic = JOURNAL_MAGIC, nbytes_used = 8\<rparr>
        (example_image (journal_of [Data_Record 17 (pad_to 4096 [3]), Commit_Record]))) 17
     = Some (pad_to 4096 [1]) \<and>
   pad_to 4096 [1] \<noteq> (pad_to 4096 [3] :: u8 list)"
proof (intro conjI)
  show "cmd_install std_sb (example_image (journal_of [Data_Record 17 (pad_to 4096 [3]), Commit_Record]))
     = Some (Applied None,
             write_journal_header std_sb \<lparr>jh_magic = JOURNAL_MAGIC, nbytes_used = 8\<rparr>
               (example_image (journal_of [Data_Record 17 (pad_to 4096 [3]), Commit_Record])))"
    by (rule cmd_install_example) (simp_all add: BLOCK_SIZE_def)
  show "read_block
     (write_journal_header std_sb \<lparr>jh_magic = JOURNAL_MAGIC, nbytes_used = 8\<rparr>
        (example_image (journal_of [Data_Record 17 (pad_to 4096 [3]), Commit_Record]))) 17
     = Some (pad_to 4096 [1])"
    by (rule read_write_other_block_std) (simp add: journal_of_def)
  show "pad_to 4096 [1] \<noteq> (pad_to 4096 [3] :: u8 list)"
    by (rule pad_to_4096_differ)
qed

text \<open>
  C4, as amended. Let the journal header be valid and let well-formed data and commit records
  lead from the header to a record, before \<open>nbytes_used\<close>, whose type is neither \<open>REC_DATA\<close>
  nor \<open>REC_COMMIT\<close>. Then \<open>cmd_install\<close> stops scanning at that record and reports its
  type, and afterwards the journal header on disk records \<open>nbytes_used = 8\<close>: the header is
  reset, not left as it was.
\<close>

theorem cmd_install_stops_at_unknown_record:
  assumes "block_off (journal_block sb) + JOURNAL_BLOCKS * BLOCK_SIZE < 2 ^ 32"
    and "read_journal_header sb d = Some \<lparr>jh_magic = JOURNAL_MAGIC, nbytes_used = used\<rparr>"
    and "list_all wf_record recs"
    and "JOURNAL_HEADER_SIZE + length (enc_records recs) < unat used"
    and "unat used \<le> JOURNAL_BLOCKS * BLOCK_SIZE"
    and "pread d (block_off (journal_block sb) + JOURNAL_HEADER_SIZE) (length (enc_records recs))
           = Some (enc_records recs)"
    and "pread d (block_off (journal_block sb) + JOURNAL_HEADER_SIZE + length (enc_records recs)) 4
           = Some rhb"
    and "rh_type (dec_rec_header rhb) \<noteq> REC_DATA" and "rh_type (dec_rec_header rhb) \<noteq> REC_COMMIT"
  shows "\<exists>d'. cmd_install sb d = Some (Applied (Some (rh_type (dec_rec_header rhb))), d') \<and>
              read_journal_header sb d' = Some \<lparr>jh_magic = JOURNAL_MAGIC, nbytes_used = 8\<rparr>"
proof -
  have "cmd_install sb d =
          Some (Applied (Some (rh_type (dec_rec_header rhb))),
                write_journal_header sb \<lparr>jh_magic = JOURNAL_MAGIC, nbytes_used = 8\<rparr> d)"
    using assms unfolding journal_capacity JOURNAL_HEADER_SIZE_def
    by (rule cmd_install_unknown_record)
  then show ?thesis
    by simp
qed

theorem cmd_install_stops_at_unknown_record_witness:
  "\<exists>d'. cmd_install std_sb
           (example_image (enc_journal_header \<lparr>jh_magic = JOURNAL_MAGIC, nbytes_used = 16\<rparr>
                           @ enc_records [Commit_Record] @ [0xFF, 0xFF, 4, 0]))
         = Some (Applied (Some 0xFFFF), d') \<and>
         read_journal_header std_sb d' = Some \<lparr>jh_magic = JOURNAL_MAGIC, nbytes_used = 8\<rparr>"
proof -
  let ?j = "enc_journal_header \<lparr>jh_magic = JOURNAL_MAGIC, nbytes_used = 16\<rparr>
              @ enc_records [Commit_Record] @ [0xFF, 0xFF, 4, 0]"
  let ?d = "example_image ?j"
  have nowrap: "block_off (journal_block std_sb) + JOURNAL_BLOCKS * BLOCK_SIZE < 2 ^ 32"
    by (simp add: journal_capacity)
  have hdr: "read_journal_header std_sb ?d = Some \<lparr>jh_magic = JOURNAL_MAGIC, nbytes_used = 16\<rparr>"
    by (rule read_journal_header_example)
  have wf: "list_all wf_record [Commit_Record]"
    by simp
  have lt: "JOURNAL_HEADER_SIZE + length (enc_records [Commit_Record]) < unat (16 :: u32)"
    by (simp add: JOURNAL_HEADER_SIZE_def)
  have le: "unat (16 :: u32) \<le> JOURNAL_BLOCKS * BLOCK_SIZE"
    by (simp add: journal_capacity)
  have recs: "pread ?d (block_off (journal_block std_sb) + JOURNAL_HEADER_SIZE)
                (length (enc_records [Commit_Record])) = Some (enc_records [Commit_Record])"
    using pread_example_journal [of 8 4 ?j] by (simp add: pread_def JOURNAL_HEADER_SIZE_def)
  have rhb: "pread ?d (block_off (journal_block std_sb) + JOURNAL_HEADER_SIZE
                         + length (enc_records [Commit_Record])) 4 = Some [0xFF, 0xFF, 4, 0]"
    using pread_example_journal [of 12 4 ?j] by (simp add: pread_def JOURNAL_HEADER_SIZE_def)
  have ty: "rh_type (dec_rec_header [0xFF, 0xFF, 4, 0]) = 0xFFFF"
    by (simp add: dec_rec_header_def dec16_def)
  have bad: "rh_type (dec_rec_header [0xFF, 0xFF, 4, 0]) \<noteq> REC_DATA"
    "rh_type (dec_rec_header [0xFF, 0xFF, 4, 0]) \<noteq> REC_COMMIT"
    by (simp_all add: ty REC_DATA_def REC_COMMIT_def)
  show ?thesis
    using cmd_install_stops_at_unknown_record [OF nowrap hdr wf lt le recs rhb bad]
    by (simp add: ty)
qed

text \<open>
  C4, as stated, fails: a journal whose header records 12 bytes and whose only record has
  the type 0 is scanned up to that record, and the header then records 8 bytes.
\<close>

theorem cmd_install_unknown_resets_header:
  "cmd_install std_sb
     (example_image (enc_journal_header \<lparr>jh_magic = JOURNAL_MAGIC, nbytes_used = 12\<rparr> @ [0, 0, 4, 0]))
     = Some (Applied (Some 0),
             write_journal_header std_sb \<lparr>jh_magic = JOURNAL_MAGIC, nbytes_used = 8\<rparr>
               (example_image
                  (enc_journal_header \<lparr>jh_magic = JOURNAL_MAGIC, nbytes_used = 12\<rparr> @ [0, 0, 4, 0]))) \<and>
   map_option nbytes_used (read_journal_header std_sb
     (example_image (enc_journal_header \<lparr>jh_magic = JOURNAL_MAGIC, nbytes_used = 12\<rparr> @ [0, 0, 4, 0])))
     = Some 12 \<and>
   map_option nbytes_used (read_journal_header std_sb
     (write_journal_header std_sb \<lparr>jh_magic = JOURNAL_MAGIC, nbytes_used = 8\<rparr>
        (example_image
           (enc_journal_header \<lparr>jh_magic = JOURNAL_MAGIC, nbytes_used = 12\<rparr> @ [0, 0, 4, 0]))))
     = Some 8"
proof -
  let ?d = "example_image (enc_journal_header \<lparr>jh_magic = JOURNAL_MAGIC, nbytes_used = 12\<rparr> @ [0, 0, 4, 0])"
  have hdr: "read_journal_header std_sb ?d = Some \<lparr>jh_magic = JOURNAL_MAGIC, nbytes_used = 12\<rparr>"
    by (rule read_journal_header_example)
  have rhb: "pread ?d (block_off (journal_block std_sb) + 8 + length (enc_records [])) 4 = Some [0, 0, 4, 0]"
    using pread_example_journal
      [of 8 4 "enc_journal_header \<lparr>jh_magic = JOURNAL_MAGIC, nbytes_used = 12\<rparr> @ [0, 0, 4, 0]"]
    by (simp add: pread_def)
  have ty: "rh_type (dec_rec_header [0, 0, 4, 0]) = 0"
    by (simp add: dec_rec_header_def dec16_def)
  have "cmd_install std_sb ?d =
          Some (Applied (Some (rh_type (dec_rec_header [0, 0, 4, 0]))),
                write_journal_header std_sb \<lparr>jh_magic = JOURNAL_MAGIC, nbytes_used = 8\<rparr> ?d)"
    using nowrap_std hdr _ _ _ _ rhb
    by (rule cmd_install_unknown_record)
       (simp_all add: ty REC_DATA_def REC_COMMIT_def pread_def length_example_image)
  then show ?thesis
    using hdr by (simp add: ty)
qed

section \<open>The two phases of create\<close>

lemma cmd_create_two_phases:
  "cmd_create sb filename t1 t2 t3 d0 =
     (case init_journal_if_needed sb d0 of
        None \<Rightarrow> (Create_Died, d0)
      | Some d \<Rightarrow>
          (case create_transaction sb filename t1 t2 t3 d of
             Inl out \<Rightarrow> (out, d)
           | Inr recs \<Rightarrow> create_result (append_records sb (map enc_record recs) d)))"
proof -
  have res: "(case r of (Appended, d') \<Rightarrow> (Created, d')
                | (Journal_Full, d') \<Rightarrow> (Create_Journal_Full, d')
                | (Append_Died, d') \<Rightarrow> (Create_Died, d')) = create_result r" for r
    by (cases r rule: create_result.cases) simp_all
  show ?thesis
    unfolding cmd_create_def create_transaction_def res
    by (simp add: Let_def split: option.splits find_result.splits)
qed

section \<open>What create leaves alone\<close>

lemma same_outside_journal_refl [simp]: "same_outside_journal sb d d"
  by (simp add: same_outside_journal_def)

lemma same_outside_journal_trans:
  "same_outside_journal sb d1 d2 \<Longrightarrow> same_outside_journal sb d2 d3 \<Longrightarrow> same_outside_journal sb d1 d3"
  unfolding same_outside_journal_def by (auto simp: max_def)

lemma same_outside_journal_pwrite:
  assumes "block_off (journal_block sb) \<le> off"
    and "off + length bs \<le> block_off (journal_block sb) + JOURNAL_BLOCKS * BLOCK_SIZE"
    and "block_off (journal_block sb) \<le> length d"
  shows "same_outside_journal sb d (pwrite d off bs)"
  unfolding same_outside_journal_def
proof (intro conjI allI impI)
  fix i assume "i < length d"
    and "i < block_off (journal_block sb) \<or> block_off (journal_block sb) + JOURNAL_BLOCKS * BLOCK_SIZE \<le> i"
  with assms show "pwrite d off bs ! i = d ! i"
    by (intro nth_pwrite_outside) auto
qed (use assms in auto)

lemma same_outside_journal_write_header:
  assumes "block_off (journal_block sb) \<le> length d"
  shows "same_outside_journal sb d (write_journal_header sb jh d)"
  unfolding write_journal_header_def
  using assms by (intro same_outside_journal_pwrite) (simp_all add: journal_capacity)

lemma init_journal_same_outside:
  "init_journal_if_needed sb d = Some d' \<Longrightarrow> same_outside_journal sb d d'"
  by (auto simp: init_journal_if_needed_def same_outside_journal_write_header
           dest!: read_journal_header_length split: option.splits if_splits)

lemma append_to_journal_same_outside:
  assumes nowrap: "block_off (journal_block sb) + 65536 < 2 ^ 32"
  shows "same_outside_journal sb d (snd (append_to_journal sb r d))"
proof (cases "read_journal_header sb d")
  case None
  then show ?thesis by (simp add: append_to_journal_def)
next
  case (Some jh)
  let ?J = "block_off (journal_block sb)"
  have len: "?J + 8 \<le> length d"
    using Some by (rule read_journal_header_length)
  show ?thesis
  proof (cases "JOURNAL_BLOCKS * BLOCK_SIZE < unat (nbytes_used jh) + length r")
    case True
    with Some show ?thesis by (simp add: append_to_journal_def)
  next
    case False
    then have fits: "unat (nbytes_used jh) + length r \<le> 65536"
      by (simp add: journal_capacity)
    have off: "unat (journal_block sb * of_nat BLOCK_SIZE + nbytes_used jh) = ?J + unat (nbytes_used jh)"
      using nowrap fits by (intro journal_offset) simp_all
    let ?d1 = "pwrite d (?J + unat (nbytes_used jh)) r"
    have 1: "same_outside_journal sb d ?d1"
      using len fits by (intro same_outside_journal_pwrite) (simp_all add: journal_capacity)
    have 2: "same_outside_journal sb ?d1 (write_journal_header sb jh' ?d1)" for jh'
      using len by (intro same_outside_journal_write_header) simp
    show ?thesis
      using Some False same_outside_journal_trans [OF 1 2]
      by (simp add: append_to_journal_def Let_def off)
  qed
qed

lemma append_records_same_outside:
  assumes nowrap: "block_off (journal_block sb) + 65536 < 2 ^ 32"
  shows "same_outside_journal sb d (snd (append_records sb recs d))"
proof (induction recs arbitrary: d)
  case Nil
  show ?case by simp
next
  case (Cons r rs)
  obtain st d1 where a: "append_to_journal sb r d = (st, d1)"
    by (cases "append_to_journal sb r d")
  then have 1: "same_outside_journal sb d d1"
    using append_to_journal_same_outside [OF nowrap, of d r] by simp
  show ?case
  proof (cases st)
    case Appended
    with a show ?thesis
      using same_outside_journal_trans [OF 1 Cons.IH [of d1]] by simp
  qed (use a 1 in simp_all)
qed

lemma snd_create_result [simp]: "snd (create_result r) = snd r"
  by (cases r rule: create_result.cases) simp_all

lemma cmd_create_same_outside:
  assumes nowrap: "block_off (journal_block sb) + 65536 < 2 ^ 32"
  shows "same_outside_journal sb d (snd (cmd_create sb filename t1 t2 t3 d))"
proof (cases "init_journal_if_needed sb d")
  case None
  then show ?thesis by (simp add: cmd_create_two_phases)
next
  case (Some d1)
  then have 1: "same_outside_journal sb d d1"
    by (rule init_journal_same_outside)
  show ?thesis
  proof (cases "create_transaction sb filename t1 t2 t3 d1")
    case (Inl out)
    with Some 1 show ?thesis by (simp add: cmd_create_two_phases)
  next
    case (Inr recs)
    with Some show ?thesis
      using same_outside_journal_trans [OF 1 append_records_same_outside [OF nowrap]]
      by (simp add: cmd_create_two_phases)
  qed
qed

lemma read_block_same_outside:
  assumes same: "same_outside_journal sb d d'"
    and out: "block_off blk + BLOCK_SIZE \<le> block_off (journal_block sb) \<or>
              block_off (journal_block sb) + JOURNAL_BLOCKS * BLOCK_SIZE \<le> block_off blk"
    and hdr: "block_off (journal_block sb) \<le> length d"
  shows "read_block d' blk = read_block d blk"
proof (cases "block_off blk + BLOCK_SIZE \<le> length d")
  case True
  have "take BLOCK_SIZE (drop (block_off blk) d') = take BLOCK_SIZE (drop (block_off blk) d)"
  proof (rule nth_equalityI)
    show "length (take BLOCK_SIZE (drop (block_off blk) d')) = length (take BLOCK_SIZE (drop (block_off blk) d))"
      using True same by (auto simp: same_outside_journal_def)
  next
    fix i assume "i < length (take BLOCK_SIZE (drop (block_off blk) d'))"
    then have i: "i < BLOCK_SIZE" by simp
    with True out same have "d' ! (block_off blk + i) = d ! (block_off blk + i)"
      unfolding same_outside_journal_def by auto
    with i True same show "take BLOCK_SIZE (drop (block_off blk) d') ! i = take BLOCK_SIZE (drop (block_off blk) d) ! i"
      by (simp add: same_outside_journal_def)
  qed
  with True same show ?thesis
    by (simp add: read_block_def pread_def same_outside_journal_def)
next
  case False
  with out hdr same have "\<not> block_off blk + BLOCK_SIZE \<le> length d'"
    unfolding same_outside_journal_def by (auto simp: max_def BLOCK_SIZE_def split: if_splits)
  with False show ?thesis
    by (simp add: read_block_def pread_def)
qed

section \<open>Appending several records\<close>

lemma append_to_journal_full:
  assumes "read_journal_header sb d = Some jh"
    and "JOURNAL_BLOCKS * BLOCK_SIZE < unat (nbytes_used jh) + length r"
  shows "append_to_journal sb r d = (Journal_Full, d)"
  using assms by (simp add: append_to_journal_def)

lemma append_to_journal_fits:
  assumes "read_journal_header sb d = Some jh"
    and "unat (nbytes_used jh) + length r \<le> JOURNAL_BLOCKS * BLOCK_SIZE"
  shows "append_to_journal sb r d =
           (Appended,
            write_journal_header sb (jh\<lparr>nbytes_used := nbytes_used jh + of_nat (length r)\<rparr>)
              (pwrite d (unat (journal_block sb * of_nat BLOCK_SIZE + nbytes_used jh)) r))"
  using assms by (simp add: append_to_journal_def Let_def)

lemma append_records_used:
  assumes "read_journal_header sb d = Some jh"
  shows "\<exists>d'. append_records sb recs d =
                 (if all_fit (unat (nbytes_used jh)) (map length recs) then Appended else Journal_Full, d') \<and>
              read_journal_header sb d' =
                 Some (jh\<lparr>nbytes_used := of_nat (used_after (unat (nbytes_used jh)) (map length recs))\<rparr>)"
  using assms
proof (induction recs arbitrary: d jh)
  case Nil
  then show ?case by simp
next
  case (Cons r rs)
  show ?case
  proof (cases "JOURNAL_BLOCKS * BLOCK_SIZE < unat (nbytes_used jh) + length r")
    case True
    then show ?thesis
      using append_to_journal_full [OF Cons.prems True] Cons.prems by simp
  next
    case False
    let ?jh1 = "jh\<lparr>nbytes_used := nbytes_used jh + of_nat (length r)\<rparr>"
    let ?d1 = "write_journal_header sb ?jh1
                 (pwrite d (unat (journal_block sb * of_nat BLOCK_SIZE + nbytes_used jh)) r)"
    have fits: "unat (nbytes_used jh) + length r \<le> JOURNAL_BLOCKS * BLOCK_SIZE"
      using False by simp
    have app: "append_to_journal sb r d = (Appended, ?d1)"
      using Cons.prems fits by (rule append_to_journal_fits)
    have hdr1: "read_journal_header sb ?d1 = Some ?jh1"
      by simp
    have u1: "unat (nbytes_used jh + of_nat (length r)) = unat (nbytes_used jh) + length r"
      using fits by (simp add: unat_used_plus journal_capacity)
    from Cons.IH [OF hdr1] show ?thesis
      using app False by (auto simp: u1)
  qed
qed

lemma pread_append:
  assumes "pread d off n = Some a" and "pread d (off + n) m = Some b"
  shows "pread d off (n + m) = Some (a @ b)"
proof -
  have "take (n + m) (drop off d) = take n (drop off d) @ take m (drop n (drop off d))"
    by (rule take_add)
  moreover have "drop n (drop off d) = drop (off + n) d"
    by (simp add: add.commute)
  ultimately show ?thesis
    using assms by (auto simp: pread_def add.assoc split: if_splits)
qed

lemma pread_write_journal_header_other:
  assumes "pread d off n = Some bs" and "block_off (journal_block sb) + 8 \<le> off"
  shows "pread (write_journal_header sb jh d) off n = Some bs"
proof -
  have "pread (write_journal_header sb jh d) off n = pread d off n"
    unfolding write_journal_header_def
    using assms by (intro pread_pwrite_other) (auto simp: pread_def split: if_splits)
  with assms show ?thesis by simp
qed

lemma append_records_layout:
  assumes nowrap: "block_off (journal_block sb) + 65536 < 2 ^ 32"
  shows "read_journal_header sb d = Some jh \<Longrightarrow>
         8 \<le> unat (nbytes_used jh) \<Longrightarrow>
         unat (nbytes_used jh) + length (concat recs) \<le> 65536 \<Longrightarrow>
         block_off (journal_block sb) + unat (nbytes_used jh) \<le> length d \<Longrightarrow>
         \<exists>d'. append_records sb recs d = (Appended, d') \<and>
              read_journal_header sb d' =
                Some (jh\<lparr>nbytes_used := nbytes_used jh + of_nat (length (concat recs))\<rparr>) \<and>
              pread d' (block_off (journal_block sb) + unat (nbytes_used jh)) (length (concat recs))
                = Some (concat recs) \<and>
              (\<forall>off n bs. pread d off n = Some bs \<and> block_off (journal_block sb) + 8 \<le> off \<and>
                          off + n \<le> block_off (journal_block sb) + unat (nbytes_used jh)
                 \<longrightarrow> pread d' off n = Some bs)"
proof (induction recs arbitrary: d jh)
  case Nil
  then show ?case by (simp add: pread_def)
next
  case (Cons r rs)
  let ?J = "block_off (journal_block sb)"
  let ?u = "unat (nbytes_used jh)"
  let ?jh1 = "jh\<lparr>nbytes_used := nbytes_used jh + of_nat (length r)\<rparr>"
  let ?dw = "pwrite d (?J + ?u) r"
  let ?d1 = "write_journal_header sb ?jh1 ?dw"
  have fits: "?u + length r \<le> 65536"
    using Cons.prems(3) by simp
  have off: "unat (journal_block sb * of_nat BLOCK_SIZE + nbytes_used jh) = ?J + ?u"
    using nowrap fits by (intro journal_offset) simp_all
  have app: "append_to_journal sb r d = (Appended, ?d1)"
    using append_to_journal_fits [OF Cons.prems(1), of r] fits by (simp add: journal_capacity off)
  have hdr1: "read_journal_header sb ?d1 = Some ?jh1"
    by simp
  have u1: "unat (nbytes_used jh + of_nat (length r)) = ?u + length r"
    using fits by (simp add: unat_used_plus)
  have len1: "?J + unat (nbytes_used ?jh1) \<le> length ?d1"
    by (simp add: u1 write_journal_header_def)
  have here: "pread ?d1 (?J + ?u) (length r) = Some r"
    using Cons.prems(2) by (intro pread_write_journal_header_other) simp_all
  have keep: "pread ?d1 off n = Some bs"
    if "pread d off n = Some bs" "?J + 8 \<le> off" "off + n \<le> ?J + ?u" for off n bs
  proof -
    have "pread ?dw off n = pread d off n"
      using that by (intro pread_pwrite_other) (auto simp: pread_def split: if_splits)
    with that show ?thesis
      by (intro pread_write_journal_header_other) simp_all
  qed
  obtain d' where
    run: "append_records sb rs ?d1 = (Appended, d')" and
    hdr': "read_journal_header sb d' =
             Some (?jh1\<lparr>nbytes_used := nbytes_used ?jh1 + of_nat (length (concat rs))\<rparr>)" and
    rest: "pread d' (?J + unat (nbytes_used ?jh1)) (length (concat rs)) = Some (concat rs)" and
    keep': "\<And>off n bs. pread ?d1 off n = Some bs \<Longrightarrow> ?J + 8 \<le> off \<Longrightarrow>
                off + n \<le> ?J + unat (nbytes_used ?jh1) \<Longrightarrow> pread d' off n = Some bs"
    using Cons.IH [OF hdr1 _ _ len1] Cons.prems(2,3) u1 by auto
  have first: "pread d' (?J + ?u) (length r) = Some r"
    using here Cons.prems(2) by (intro keep') (simp_all add: u1)
  have both: "pread d' (?J + ?u) (length r + length (concat rs)) = Some (r @ concat rs)"
    using first rest by (intro pread_append) (simp_all add: u1 add.assoc)
  have kept: "pread d' off n = Some bs"
    if "pread d off n = Some bs" "?J + 8 \<le> off" "off + n \<le> ?J + ?u" for off n bs
    using that by (intro keep' keep) (simp_all add: u1)
  show ?case
    using app run hdr' both kept by (auto simp: add.assoc)
qed

section \<open>The transaction that create builds\<close>

lemma read_block_length: "read_block d blk = Some b \<Longrightarrow> length b = 4096"
  by (auto simp: read_block_def BLOCK_SIZE_def dest: pread_length)

lemma length_store_at:
  "off + length src \<le> length buf \<Longrightarrow> length (store_at buf off src) = length buf"
  by (simp add: store_at_def)

lemma length_strncpy [simp]: "length (strncpy src n) = n"
  by (simp add: strncpy_def Let_def)

lemma create_transaction_Inl:
  "create_transaction sb f t1 t2 t3 d = Inl out \<Longrightarrow> out = Create_Died \<or> out = Create_Overrun"
  by (auto simp: create_transaction_def Let_def
           split: option.splits find_result.splits if_splits)

lemma create_transaction_Inr:
  assumes "create_transaction sb f t1 t2 t3 d = Inr recs"
  shows "list_all wf_record recs \<and> map length (map enc_record recs) = [4104, 4104, 4104, 4104, 4]"
proof -
  obtain ib n rb dirb inob where
    ib: "read_block d (inode_bitmap sb) = Some ib" and
    n: "bitmap_find_free ib 64 = Free_At n" and
    rb: "read_block d (inode_start sb) = Some rb" and
    dirb: "read_block d (dec32 (take 4 (drop 8 rb))) = Some dirb" and
    inob: "read_block d (inode_start sb + of_nat (n div 32)) = Some inob" and
    room: "\<not> BLOCK_SIZE < unat (dec32 (take 4 (drop 4 rb))) div DIRENT_SIZE * DIRENT_SIZE + DIRENT_SIZE" and
    recs: "recs =
        [Data_Record (inode_bitmap sb) (bitmap_set ib n),
         Data_Record (inode_start sb + of_nat (n div 32))
           (store_at inob ((n mod 32) * INODE_SIZE)
              (enc_inode \<lparr>i_type = 1, i_links = 1, i_size = 0, i_direct = replicate 8 0,
                          i_ctime = t1, i_mtime = t2\<rparr>)),
         Data_Record (dec32 (take 4 (drop 8 rb)))
           ((store_at (store_at dirb (unat (dec32 (take 4 (drop 4 rb))) div DIRENT_SIZE * DIRENT_SIZE)
                         (enc32 (of_nat n)))
               (unat (dec32 (take 4 (drop 4 rb))) div DIRENT_SIZE * DIRENT_SIZE + 4)
               (strncpy f (NAME_LEN - 1)))
              [unat (dec32 (take 4 (drop 4 rb))) div DIRENT_SIZE * DIRENT_SIZE + 4 + (NAME_LEN - 1) := 0]),
         Data_Record (inode_start sb)
           (store_at (store_at rb 4 (enc32 (dec32 (take 4 (drop 4 rb)) + of_nat DIRENT_SIZE)))
              44 (enc32 t3)),
         Commit_Record]"
    using assms
    by (auto simp: create_transaction_def Let_def
             split: option.splits find_result.splits if_splits)
  have l: "length ib = 4096" "length rb = 4096" "length dirb = 4096" "length inob = 4096"
    using ib rb dirb inob by (auto dest: read_block_length)
  have b1: "length (bitmap_set ib n) = 4096"
    using l by simp
  have "n mod 32 * 128 + 128 \<le> 4096"
  proof -
    have "n mod 32 \<le> 31" by (simp add: less_Suc_eq_le [symmetric])
    then show ?thesis by simp
  qed
  then have b2: "length (store_at inob ((n mod 32) * INODE_SIZE)
              (enc_inode \<lparr>i_type = 1, i_links = 1, i_size = 0, i_direct = replicate 8 0,
                          i_ctime = t1, i_mtime = t2\<rparr>)) = 4096"
    using l by (simp add: length_store_at INODE_SIZE_def)
  have b3: "length ((store_at (store_at dirb (unat (dec32 (take 4 (drop 4 rb))) div DIRENT_SIZE * DIRENT_SIZE)
                         (enc32 (of_nat n)))
               (unat (dec32 (take 4 (drop 4 rb))) div DIRENT_SIZE * DIRENT_SIZE + 4)
               (strncpy f (NAME_LEN - 1)))
              [unat (dec32 (take 4 (drop 4 rb))) div DIRENT_SIZE * DIRENT_SIZE + 4 + (NAME_LEN - 1) := 0]) = 4096"
    using l room by (simp add: length_store_at DIRENT_SIZE_def NAME_LEN_def BLOCK_SIZE_def)
  have b4: "length (store_at (store_at rb 4 (enc32 (dec32 (take 4 (drop 4 rb)) + of_nat DIRENT_SIZE)))
              44 (enc32 t3)) = 4096"
    using l by (simp add: length_store_at)
  show ?thesis
    unfolding recs using b1 b2 b3 b4 by (simp add: BLOCK_SIZE_def)
qed

lemma used_after_transaction:
  "used_after u [4104, 4104, 4104, 4104, 4] =
     (if u + 16420 \<le> 65536 then u + 16420 else u + 4104 * min 4 ((65536 - u) div 4104))"
proof -
  consider "65536 < u + 4104" | "u + 4104 \<le> 65536" "65536 < u + 8208"
    | "u + 8208 \<le> 65536" "65536 < u + 12312" | "u + 12312 \<le> 65536" "65536 < u + 16416"
    | "u + 16416 \<le> 65536" "65536 < u + 16420" | "u + 16420 \<le> 65536"
    by linarith
  then show ?thesis
  proof cases
    case 1
    then have "(65536 - u) div 4104 = 0" by simp
    with 1 show ?thesis by (simp add: journal_capacity)
  next
    case 2
    then have "(65536 - u) div 4104 = 1" by (intro div_nat_eqI) simp_all
    with 2 show ?thesis by (simp add: journal_capacity)
  next
    case 3
    then have "(65536 - u) div 4104 = 2" by (intro div_nat_eqI) simp_all
    with 3 show ?thesis by (simp add: journal_capacity)
  next
    case 4
    then have "(65536 - u) div 4104 = 3" by (intro div_nat_eqI) simp_all
    with 4 show ?thesis by (simp add: journal_capacity)
  next
    case 5
    then have "4 \<le> (65536 - u) div 4104"
      by (simp add: less_eq_div_iff_mult_less_eq)
    with 5 show ?thesis by (simp add: journal_capacity min_def)
  next
    case 6
    then show ?thesis by (simp add: journal_capacity)
  qed
qed

lemma all_fit_transaction:
  "all_fit u [4104, 4104, 4104, 4104, 4] \<longleftrightarrow> u + 16420 \<le> 65536"
  by (auto simp: journal_capacity)

lemma init_journal_valid:
  "read_journal_header sb d = Some jh \<Longrightarrow> jh_magic jh = JOURNAL_MAGIC \<Longrightarrow>
   init_journal_if_needed sb d = Some d"
  by (simp add: init_journal_if_needed_def)

lemma fst_create_result:
  "fst (create_result r) = (case fst r of Appended \<Rightarrow> Created | Journal_Full \<Rightarrow> Create_Journal_Full | Append_Died \<Rightarrow> Create_Died)"
  by (cases r rule: create_result.cases) simp_all

lemma cmd_create_header:
  assumes hdr: "read_journal_header sb d = Some jh" and magic: "jh_magic jh = JOURNAL_MAGIC"
    and tx: "create_transaction sb f t1 t2 t3 d = Inr recs"
  shows "fst (cmd_create sb f t1 t2 t3 d) =
           (if unat (nbytes_used jh) + 16420 \<le> 65536 then Created else Create_Journal_Full) \<and>
         read_journal_header sb (snd (cmd_create sb f t1 t2 t3 d)) =
           Some (jh\<lparr>nbytes_used := of_nat (used_after (unat (nbytes_used jh)) [4104, 4104, 4104, 4104, 4])\<rparr>)"
proof -
  have lens: "map length (map enc_record recs) = [4104, 4104, 4104, 4104, 4]"
    using create_transaction_Inr [OF tx] by simp
  obtain d' where
    "append_records sb (map enc_record recs) d =
       (if all_fit (unat (nbytes_used jh)) [4104, 4104, 4104, 4104, 4] then Appended else Journal_Full, d')"
    "read_journal_header sb d' =
       Some (jh\<lparr>nbytes_used := of_nat (used_after (unat (nbytes_used jh)) [4104, 4104, 4104, 4104, 4])\<rparr>)"
    using append_records_used [OF hdr, of "map enc_record recs"] unfolding lens by blast
  then show ?thesis
    using init_journal_valid [OF hdr magic] tx
    unfolding all_fit_transaction
    by (simp add: cmd_create_two_phases fst_create_result)
qed

section \<open>Create on the example image\<close>

lemma block_off_small: "unat blk < 2 ^ 20 \<Longrightarrow> block_off blk = unat blk * 4096"
proof -
  assume a: "unat blk < 2 ^ 20"
  have "unat blk * 4096 < 2 ^ 32"
    using a by simp
  then show ?thesis
    by (simp add: block_off_def BLOCK_SIZE_def unat_word_ariths take_bit_nat_eq_self)
qed

lemma block_off_values [simp]:
  "block_off 1 = 4096" "block_off 18 = 73728" "block_off 19 = 77824" "block_off 20 = 81920"
  "block_off 21 = 86016"
  by (simp_all add: block_off_def BLOCK_SIZE_def)

lemma read_block_formatted_18:
  "length journal \<le> 65536 \<Longrightarrow> read_block (formatted_image sz journal) 18 = Some (pad_to 4096 [1])"
  unfolding formatted_image_def read_block_def
  apply (simp add: BLOCK_SIZE_def)
  apply (subst pread_append_right, simp)
  apply (subst pread_append_right, simp)
  apply (subst pread_append_right, simp)
  apply (subst pread_append_left, simp)
  apply (simp add: pread_def)
  done

lemma read_block_formatted_19:
  "length journal \<le> 65536 \<Longrightarrow>
   read_block (formatted_image sz journal) 19 = Some (pad_to 4096 (enc_inode (root_inode sz)))"
  unfolding formatted_image_def read_block_def
  apply (simp add: BLOCK_SIZE_def)
  apply (subst pread_append_right, simp)
  apply (subst pread_append_right, simp)
  apply (subst pread_append_right, simp)
  apply (subst pread_append_right, simp)
  apply (subst pread_append_left, simp add: root_inode_def)
  apply (simp add: pread_def root_inode_def)
  done

lemma read_block_formatted_21:
  "length journal \<le> 65536 \<Longrightarrow>
   read_block (formatted_image sz journal) 21
     = Some (pad_to 4096 (enc_dirent 0 [0x2E] @ enc_dirent 0 [0x2E, 0x2E]))"
  unfolding formatted_image_def read_block_def
  apply (simp add: BLOCK_SIZE_def)
  apply (subst pread_append_right, simp)
  apply (subst pread_append_right, simp)
  apply (subst pread_append_right, simp)
  apply (subst pread_append_right, simp)
  apply (subst pread_append_right, simp add: root_inode_def)
  apply (subst pread_append_right, simp add: root_inode_def)
  apply (subst pread_append_left, simp add: root_inode_def)
  apply (simp add: pread_def root_inode_def)
  done

lemma find_free_formatted: "bitmap_find_free (pad_to 4096 [1]) 64 = Free_At 1"
  by (simp add: bitmap_find_free_def bitmap_scan_Free_At bitmap_test_def pad_to_def)

lemma root_fields_formatted:
  "dec32 (take 4 (drop 4 (pad_to 4096 (enc_inode (root_inode sz))))) = sz"
  "dec32 (take 4 (drop 8 (pad_to 4096 (enc_inode (root_inode sz))))) = 21"
  by (simp_all add: pad_to_def enc_inode_def root_inode_def)

lemma read_block_live_formatted:
  assumes same: "same_outside_journal std_sb (formatted_image sz j) d"
    and len: "length j \<le> 65536" and blk: "69632 \<le> block_off blk"
  shows "read_block d blk = read_block (formatted_image sz j) blk"
  using same
proof (rule read_block_same_outside)
  show "block_off blk + BLOCK_SIZE \<le> block_off (journal_block std_sb) \<or>
        block_off (journal_block std_sb) + JOURNAL_BLOCKS * BLOCK_SIZE \<le> block_off blk"
    using blk by (simp add: journal_capacity)
  show "block_off (journal_block std_sb) \<le> length (formatted_image sz j)"
    using len by (simp add: length_example_image)
qed

lemma std_sb_fields [simp]:
  "inode_bitmap std_sb = 17" "data_bitmap std_sb = 18" "inode_start std_sb = 19"
  "journal_block std_sb = 1"
  by (simp_all add: std_sb_def)

lemma create_transaction_formatted:
  assumes same: "same_outside_journal std_sb (formatted_image sz j) d" and len: "length j \<le> 65536"
  shows "unat sz div 32 < 128 \<Longrightarrow> \<exists>recs. create_transaction std_sb f t1 t2 t3 d = Inr recs"
    and "128 \<le> unat sz div 32 \<Longrightarrow> create_transaction std_sb f t1 t2 t3 d = Inl Create_Overrun"
proof -
  have r: "read_block d 17 = Some (pad_to 4096 [1])" "read_block d 18 = Some (pad_to 4096 [1])"
    "read_block d 19 = Some (pad_to 4096 (enc_inode (root_inode sz)))"
    "read_block d 21 = Some (pad_to 4096 (enc_dirent 0 [0x2E] @ enc_dirent 0 [0x2E, 0x2E]))"
    using read_block_live_formatted [OF same len] len
    by (simp_all add: read_block_example_inode_bitmap read_block_formatted_18
          read_block_formatted_19 read_block_formatted_21)
  show "\<exists>recs. create_transaction std_sb f t1 t2 t3 d = Inr recs" if "unat sz div 32 < 128"
    using that r
    by (simp add: create_transaction_def find_free_formatted root_fields_formatted
          Let_def DIRENT_SIZE_def BLOCK_SIZE_def)
  show "create_transaction std_sb f t1 t2 t3 d = Inl Create_Overrun" if "128 \<le> unat sz div 32"
    using that r
    by (simp add: create_transaction_def find_free_formatted root_fields_formatted
          Let_def DIRENT_SIZE_def BLOCK_SIZE_def)
qed

lemma enc_records_concat: "concat (map enc_record recs) = enc_records recs"
  by (simp add: enc_records_def)

lemma length_enc_records_transaction:
  "map length (map enc_record recs) = [4104, 4104, 4104, 4104, 4] \<Longrightarrow> length (enc_records recs) = 16420"
proof -
  assume a: "map length (map enc_record recs) = [4104, 4104, 4104, 4104, 4]"
  have "length (enc_records recs) = sum_list (map length (map enc_record recs))"
    by (simp add: enc_records_def length_concat)
  then show ?thesis
    unfolding a by simp
qed

lemma create_then_install:
  assumes nowrap: "block_off (journal_block sb) + 65536 < 2 ^ 32"
    and hdr: "read_journal_header sb d = Some \<lparr>jh_magic = JOURNAL_MAGIC, nbytes_used = 8\<rparr>"
    and tx: "create_transaction sb f t1 t2 t3 d = Inr recs"
  shows "\<exists>d1. cmd_create sb f t1 t2 t3 d = (Created, d1) \<and>
              cmd_install sb d1 =
                Some (Applied None,
                      write_journal_header sb \<lparr>jh_magic = JOURNAL_MAGIC, nbytes_used = 8\<rparr> d1) \<and>
              same_outside_journal sb d d1"
proof -
  let ?jh = "\<lparr>jh_magic = JOURNAL_MAGIC, nbytes_used = 8\<rparr>"
  have wf: "list_all wf_record recs" and lens: "map length (map enc_record recs) = [4104, 4104, 4104, 4104, 4]"
    using create_transaction_Inr [OF tx] by simp_all
  have total: "length (enc_records recs) = 16420"
    using lens by (rule length_enc_records_transaction)
  have ne: "recs \<noteq> []"
    using lens by auto
  have len: "block_off (journal_block sb) + unat (nbytes_used ?jh) \<le> length d"
    using read_journal_header_length [OF hdr] by simp
  obtain d1 where
    app: "append_records sb (map enc_record recs) d = (Appended, d1)" and
    hdr1: "read_journal_header sb d1 =
             Some (?jh\<lparr>nbytes_used := nbytes_used ?jh + of_nat (length (concat (map enc_record recs)))\<rparr>)" and
    rd: "pread d1 (block_off (journal_block sb) + unat (nbytes_used ?jh))
           (length (concat (map enc_record recs))) = Some (concat (map enc_record recs))"
    using append_records_layout [OF nowrap hdr _ _ len, of "map enc_record recs"]
    by (auto simp: enc_records_concat total)
  have create: "cmd_create sb f t1 t2 t3 d = (Created, d1)"
    using init_journal_valid [OF hdr] tx app by (simp add: cmd_create_two_phases)
  have hdr1': "read_journal_header sb d1 =
                 Some \<lparr>jh_magic = JOURNAL_MAGIC, nbytes_used = of_nat (8 + length (enc_records recs))\<rparr>"
    using hdr1 by (simp add: enc_records_concat)
  have rd': "pread d1 (block_off (journal_block sb) + 8) (length (enc_records recs)) = Some (enc_records recs)"
    using rd by (simp add: enc_records_concat)
  have install: "cmd_install sb d1 =
                   Some (Applied None, write_journal_header sb ?jh d1)"
    using nowrap hdr1' wf ne _ rd' by (rule cmd_install_committed) (simp add: total)
  have "same_outside_journal sb d (snd (cmd_create sb f t1 t2 t3 d))"
    using nowrap by (rule cmd_create_same_outside)
  with create install show ?thesis
    by simp
qed

lemma journal_of_Nil: "journal_of [] = enc_journal_header \<lparr>jh_magic = JOURNAL_MAGIC, nbytes_used = 8\<rparr>"
  by (simp add: journal_of_def JOURNAL_HEADER_SIZE_def)

lemma length_journal_of_Nil [simp]: "length (journal_of []) = 8"
  by (simp add: journal_of_Nil)

lemma read_journal_header_fresh:
  "read_journal_header std_sb (formatted_image sz (journal_of [])) =
     Some \<lparr>jh_magic = JOURNAL_MAGIC, nbytes_used = 8\<rparr>"
  using read_journal_header_journal_of [of sz "[]"] by simp

lemma create_step_formatted:
  assumes same: "same_outside_journal std_sb (formatted_image sz j) d" and len: "length j \<le> 65536"
    and sz: "unat sz div 32 < 128"
    and hdr: "read_journal_header std_sb d = Some \<lparr>jh_magic = JOURNAL_MAGIC, nbytes_used = u\<rparr>"
  shows "fst (cmd_create std_sb f t1 t2 t3 d) =
           (if unat u + 16420 \<le> 65536 then Created else Create_Journal_Full)"
    and "read_journal_header std_sb (snd (cmd_create std_sb f t1 t2 t3 d)) =
           Some \<lparr>jh_magic = JOURNAL_MAGIC,
                 nbytes_used = of_nat (used_after (unat u) [4104, 4104, 4104, 4104, 4])\<rparr>"
    and "same_outside_journal std_sb (formatted_image sz j) (snd (cmd_create std_sb f t1 t2 t3 d))"
proof -
  obtain recs where tx: "create_transaction std_sb f t1 t2 t3 d = Inr recs"
    using create_transaction_formatted(1) [OF same len sz] by blast
  show "fst (cmd_create std_sb f t1 t2 t3 d) =
           (if unat u + 16420 \<le> 65536 then Created else Create_Journal_Full)"
    and "read_journal_header std_sb (snd (cmd_create std_sb f t1 t2 t3 d)) =
           Some \<lparr>jh_magic = JOURNAL_MAGIC,
                 nbytes_used = of_nat (used_after (unat u) [4104, 4104, 4104, 4104, 4])\<rparr>"
    using cmd_create_header [OF hdr _ tx] by simp_all
  show "same_outside_journal std_sb (formatted_image sz j) (snd (cmd_create std_sb f t1 t2 t3 d))"
    using same cmd_create_same_outside [OF nowrap_std] by (rule same_outside_journal_trans)
qed

section \<open>What create does\<close>

text \<open>
  C5. When the journal region lies below \<open>2^32\<close>, the image that \<open>cmd_create\<close> leaves behind,
  whatever its outcome (journalled, journal full, died or stopped), is at least as long as the
  image before, every byte outside the journal region is as before, and so every block that
  lies outside the journal region (in the layout of the source the two bitmaps, the inode
  table and the data blocks, the root directory block among them) reads as before.
\<close>

theorem cmd_create_writes_journal_only:
  assumes nowrap: "block_off (journal_block sb) + JOURNAL_BLOCKS * BLOCK_SIZE < 2 ^ 32"
  shows "length d \<le> length (snd (cmd_create sb filename t1 t2 t3 d)) \<and>
         (\<forall>i<length d.
            i < block_off (journal_block sb) \<or>
            block_off (journal_block sb) + JOURNAL_BLOCKS * BLOCK_SIZE \<le> i
            \<longrightarrow> snd (cmd_create sb filename t1 t2 t3 d) ! i = d ! i) \<and>
         (\<forall>blk. block_off blk + BLOCK_SIZE \<le> block_off (journal_block sb) \<or>
                block_off (journal_block sb) + JOURNAL_BLOCKS * BLOCK_SIZE \<le> block_off blk
            \<longrightarrow> read_block (snd (cmd_create sb filename t1 t2 t3 d)) blk = read_block d blk)"
proof -
  let ?d' = "snd (cmd_create sb filename t1 t2 t3 d)"
  have same: "same_outside_journal sb d ?d'"
    using nowrap unfolding journal_capacity by (rule cmd_create_same_outside)
  have blocks: "read_block ?d' blk = read_block d blk"
    if out: "block_off blk + BLOCK_SIZE \<le> block_off (journal_block sb) \<or>
             block_off (journal_block sb) + JOURNAL_BLOCKS * BLOCK_SIZE \<le> block_off blk" for blk
  proof (cases "block_off (journal_block sb) \<le> length d")
    case True
    with same out show ?thesis by (rule read_block_same_outside)
  next
    case False
    then have "read_journal_header sb d = None"
      by (simp add: read_journal_header_def pread_def)
    then have "?d' = d"
      by (simp add: cmd_create_two_phases init_journal_if_needed_def)
    then show ?thesis by simp
  qed
  show ?thesis
    using same blocks unfolding same_outside_journal_def by blast
qed

theorem cmd_create_writes_journal_only_witness:
  "block_off (journal_block std_sb) + JOURNAL_BLOCKS * BLOCK_SIZE < 2 ^ 32 \<and>
   fst (cmd_create std_sb foo_txt 1000 1000 1000 (example_image (journal_of []))) = Created \<and>
   read_block (snd (cmd_create std_sb foo_txt 1000 1000 1000 (example_image (journal_of [])))) 17
     = Some (pad_to 4096 [1]) \<and>
   read_block (snd (cmd_create std_sb foo_txt 1000 1000 1000 (example_image (journal_of [])))) 19
     = Some (pad_to 4096 (enc_inode (root_inode 64))) \<and>
   read_journal_header std_sb (snd (cmd_create std_sb foo_txt 1000 1000 1000 (example_image (journal_of []))))
     = Some \<lparr>jh_magic = JOURNAL_MAGIC, nbytes_used = 16428\<rparr>"
proof -
  let ?d = "example_image (journal_of [])"
  let ?jh = "\<lparr>jh_magic = JOURNAL_MAGIC, nbytes_used = 8\<rparr>"
  have nowrap: "block_off (journal_block std_sb) + JOURNAL_BLOCKS * BLOCK_SIZE < 2 ^ 32"
    by (simp add: journal_capacity)
  obtain recs where tx: "create_transaction std_sb foo_txt 1000 1000 1000 ?d = Inr recs"
    using create_transaction_formatted(1) [of 64 "journal_of []" ?d] by force
  have hdr: "fst (cmd_create std_sb foo_txt 1000 1000 1000 ?d) = Created"
    "read_journal_header std_sb (snd (cmd_create std_sb foo_txt 1000 1000 1000 ?d))
       = Some \<lparr>jh_magic = JOURNAL_MAGIC, nbytes_used = 16428\<rparr>"
    using cmd_create_header [OF read_journal_header_fresh _ tx]
    by (simp_all add: journal_capacity)
  have "read_block (snd (cmd_create std_sb foo_txt 1000 1000 1000 ?d)) 17 = read_block ?d 17"
    "read_block (snd (cmd_create std_sb foo_txt 1000 1000 1000 ?d)) 19 = read_block ?d 19"
    using cmd_create_writes_journal_only [OF nowrap, of ?d foo_txt 1000 1000 1000]
    by (simp_all add: journal_capacity)
  then show ?thesis
    using nowrap hdr by (simp add: read_block_example_inode_bitmap read_block_formatted_19)
qed

text \<open>
  C3. The claim is that \<open>create\<close> of \<open>foo.txt\<close> followed by \<open>install\<close> sets the bit of the new
  inode in the inode bitmap (and writes the inode, the directory entry and the root inode).
  On the example image with an empty journal, \<open>cmd_create\<close> journals the transaction and
  \<open>cmd_install\<close> ends normally with the header reset to 8 bytes; the inode that create chose
  is inode 1, the lowest clear bit of block 17; and after install block 17 is what it was, with
  bit 1 clear.
\<close>

theorem create_install_leaves_bitmap:
  "\<exists>d1 d2. cmd_create std_sb foo_txt 1000 1000 1000 (example_image (journal_of [])) = (Created, d1) \<and>
           cmd_install std_sb d1 = Some (Applied None, d2) \<and>
           read_journal_header std_sb d2 = Some \<lparr>jh_magic = JOURNAL_MAGIC, nbytes_used = 8\<rparr> \<and>
           read_block (example_image (journal_of [])) 17 = Some (pad_to 4096 [1]) \<and>
           bitmap_find_free (pad_to 4096 [1]) 64 = Free_At 1 \<and>
           read_block d2 17 = Some (pad_to 4096 [1]) \<and>
           \<not> bitmap_test (pad_to 4096 [1]) 1"
proof -
  let ?d = "example_image (journal_of [])"
  let ?jh = "\<lparr>jh_magic = JOURNAL_MAGIC, nbytes_used = 8\<rparr>"
  obtain recs where tx: "create_transaction std_sb foo_txt 1000 1000 1000 ?d = Inr recs"
    using create_transaction_formatted(1) [of 64 "journal_of []" ?d] by force
  obtain d1 where
    create: "cmd_create std_sb foo_txt 1000 1000 1000 ?d = (Created, d1)" and
    install: "cmd_install std_sb d1 = Some (Applied None, write_journal_header std_sb ?jh d1)" and
    same: "same_outside_journal std_sb ?d d1"
    using create_then_install [OF nowrap_std read_journal_header_fresh tx] by blast
  have len1: "block_off (journal_block std_sb) + 8 \<le> length d1"
    using same by (simp add: same_outside_journal_def length_example_image)
  have "read_block (write_journal_header std_sb ?jh d1) 17 = read_block d1 17"
    using _ len1 by (rule read_block_write_journal_header) (simp add: JOURNAL_HEADER_SIZE_def)
  also have "\<dots> = read_block ?d 17"
    using same by (rule read_block_live_formatted) simp_all
  also have "\<dots> = Some (pad_to 4096 [1])"
    by (rule read_block_example_inode_bitmap) simp
  finally have blk: "read_block (write_journal_header std_sb ?jh d1) 17 = Some (pad_to 4096 [1])" .
  have clear: "\<not> bitmap_test (pad_to 4096 [1]) 1"
    by (simp add: bitmap_test_def pad_to_def)
  show ?thesis
    using create install blk clear find_free_formatted read_block_example_inode_bitmap [of "journal_of []" 64]
    by simp
qed

text \<open>
  C8. The claim is that \<open>create\<close> fails cleanly when the root directory already fills its
  block. On the example image whose root inode records a size of 4096 bytes, the entry index
  is 128 and \<open>cmd_create\<close> writes the entry past the end of its 4096-byte buffer: the outcome
  is the overrun, not a reported failure.
\<close>

theorem cmd_create_overruns_full_directory:
  "cmd_create std_sb foo_txt 1000 1000 1000 (formatted_image 4096 (journal_of []))
     = (Create_Overrun, formatted_image 4096 (journal_of []))"
proof -
  let ?d = "formatted_image 4096 (journal_of [])"
  have "create_transaction std_sb foo_txt 1000 1000 1000 ?d = Inl Create_Overrun"
    using create_transaction_formatted(2) [of 4096 "journal_of []" ?d] by simp
  then show ?thesis
    using init_journal_valid [OF read_journal_header_fresh]
    by (simp add: cmd_create_two_phases)
qed

text \<open>
  C6, as amended. Let the journal header be valid. If create gets as far as its appends and
  the journal cannot hold the four data records and the commit record, create ends with the
  capacity error. Whenever create ends with the capacity error, the journal could not hold
  the whole transaction, and the header afterwards counts, beyond what it counted before, the
  data records of the failed attempt that did fit, 4104 bytes each: as many of the four as the
  free space holds. The count is as before only when not even one data record fits.
\<close>

theorem cmd_create_journal_full:
  assumes hdr: "read_journal_header sb d = Some jh" and magic: "jh_magic jh = JOURNAL_MAGIC"
  shows "((\<exists>recs. create_transaction sb filename t1 t2 t3 d = Inr recs) \<and>
          JOURNAL_BLOCKS * BLOCK_SIZE < unat (nbytes_used jh) + (4 * DATA_RECORD_SIZE + COMMIT_RECORD_SIZE)
          \<longrightarrow> fst (cmd_create sb filename t1 t2 t3 d) = Create_Journal_Full) \<and>
         (fst (cmd_create sb filename t1 t2 t3 d) = Create_Journal_Full \<longrightarrow>
            JOURNAL_BLOCKS * BLOCK_SIZE < unat (nbytes_used jh) + (4 * DATA_RECORD_SIZE + COMMIT_RECORD_SIZE) \<and>
            read_journal_header sb (snd (cmd_create sb filename t1 t2 t3 d)) =
              Some (jh\<lparr>nbytes_used := nbytes_used jh +
                      of_nat (DATA_RECORD_SIZE *
                                min 4 ((JOURNAL_BLOCKS * BLOCK_SIZE - unat (nbytes_used jh))
                                         div DATA_RECORD_SIZE))\<rparr>))"
proof (intro conjI impI)
  assume "(\<exists>recs. create_transaction sb filename t1 t2 t3 d = Inr recs) \<and>
          JOURNAL_BLOCKS * BLOCK_SIZE < unat (nbytes_used jh) + (4 * DATA_RECORD_SIZE + COMMIT_RECORD_SIZE)"
  then obtain recs where tx: "create_transaction sb filename t1 t2 t3 d = Inr recs"
    and big: "65536 < unat (nbytes_used jh) + 16420"
    by (auto simp: journal_capacity DATA_RECORD_SIZE_def COMMIT_RECORD_SIZE_def)
  then show "fst (cmd_create sb filename t1 t2 t3 d) = Create_Journal_Full"
    using cmd_create_header [OF hdr magic tx] by simp
next
  assume full: "fst (cmd_create sb filename t1 t2 t3 d) = Create_Journal_Full"
  have init: "init_journal_if_needed sb d = Some d"
    using hdr magic by (rule init_journal_valid)
  obtain recs where tx: "create_transaction sb filename t1 t2 t3 d = Inr recs"
  proof (cases "create_transaction sb filename t1 t2 t3 d")
    case (Inl out)
    with full init create_transaction_Inl [OF Inl] show ?thesis
      by (auto simp: cmd_create_two_phases)
  next
    case (Inr recs)
    with that show ?thesis .
  qed
  have big: "\<not> unat (nbytes_used jh) + 16420 \<le> 65536"
    using cmd_create_header [OF hdr magic tx] full by (auto split: if_splits)
  then show "JOURNAL_BLOCKS * BLOCK_SIZE < unat (nbytes_used jh) + (4 * DATA_RECORD_SIZE + COMMIT_RECORD_SIZE)"
    by (simp add: journal_capacity DATA_RECORD_SIZE_def COMMIT_RECORD_SIZE_def)
  have "(of_nat (unat (nbytes_used jh) + 4104 * min 4 ((65536 - unat (nbytes_used jh)) div 4104)) :: u32)
          = nbytes_used jh + of_nat (4104 * min 4 ((65536 - unat (nbytes_used jh)) div 4104))"
    by simp
  then show "read_journal_header sb (snd (cmd_create sb filename t1 t2 t3 d)) =
              Some (jh\<lparr>nbytes_used := nbytes_used jh +
                      of_nat (DATA_RECORD_SIZE *
                                min 4 ((JOURNAL_BLOCKS * BLOCK_SIZE - unat (nbytes_used jh))
                                         div DATA_RECORD_SIZE))\<rparr>)"
    using cmd_create_header [OF hdr magic tx] big
    unfolding used_after_transaction journal_capacity DATA_RECORD_SIZE_def
    by simp
qed

theorem cmd_create_journal_full_witness:
  "read_journal_header std_sb
     (example_image (enc_journal_header \<lparr>jh_magic = JOURNAL_MAGIC, nbytes_used = 49268\<rparr>))
     = Some \<lparr>jh_magic = JOURNAL_MAGIC, nbytes_used = 49268\<rparr> \<and>
   fst (cmd_create std_sb foo_txt 1000 1000 1000
          (example_image (enc_journal_header \<lparr>jh_magic = JOURNAL_MAGIC, nbytes_used = 49268\<rparr>)))
     = Create_Journal_Full \<and>
   read_journal_header std_sb
     (snd (cmd_create std_sb foo_txt 1000 1000 1000
             (example_image (enc_journal_header \<lparr>jh_magic = JOURNAL_MAGIC, nbytes_used = 49268\<rparr>))))
     = Some \<lparr>jh_magic = JOURNAL_MAGIC, nbytes_used = 61580\<rparr>"
proof -
  let ?jh = "\<lparr>jh_magic = JOURNAL_MAGIC, nbytes_used = 49268\<rparr>"
  let ?d = "example_image (enc_journal_header ?jh)"
  have hdr: "read_journal_header std_sb ?d = Some ?jh"
    using read_journal_header_example [of 64 ?jh "[]"] by simp
  have magic: "jh_magic ?jh = JOURNAL_MAGIC"
    by simp
  have tx: "\<exists>recs. create_transaction std_sb foo_txt 1000 1000 1000 ?d = Inr recs"
    by (rule create_transaction_formatted(1) [of 64 "enc_journal_header ?jh"]) simp_all
  have big: "JOURNAL_BLOCKS * BLOCK_SIZE < unat (nbytes_used ?jh) + (4 * DATA_RECORD_SIZE + COMMIT_RECORD_SIZE)"
    by (simp add: journal_capacity DATA_RECORD_SIZE_def COMMIT_RECORD_SIZE_def)
  have full: "fst (cmd_create std_sb foo_txt 1000 1000 1000 ?d) = Create_Journal_Full"
    using cmd_create_journal_full [OF hdr magic, of foo_txt 1000 1000 1000] tx big by blast
  have "read_journal_header std_sb (snd (cmd_create std_sb foo_txt 1000 1000 1000 ?d)) =
          Some (?jh\<lparr>nbytes_used := nbytes_used ?jh +
                  of_nat (DATA_RECORD_SIZE *
                            min 4 ((JOURNAL_BLOCKS * BLOCK_SIZE - unat (nbytes_used ?jh))
                                     div DATA_RECORD_SIZE))\<rparr>)"
    using cmd_create_journal_full [OF hdr magic, of foo_txt 1000 1000 1000] full by blast
  then have "read_journal_header std_sb (snd (cmd_create std_sb foo_txt 1000 1000 1000 ?d)) =
          Some \<lparr>jh_magic = JOURNAL_MAGIC, nbytes_used = 61580\<rparr>"
    by (simp add: journal_capacity DATA_RECORD_SIZE_def)
  with hdr full show ?thesis
    by simp
qed

text \<open>
  C6, as stated, fails: after three successful creates on the example image the journal
  uses 49268 bytes; the fourth create ends with the capacity error and the journal then uses
  61580 bytes, three data records of the failed attempt having been appended.
\<close>

theorem create_all_then_journal_full:
  "map_option nbytes_used
     (read_journal_header std_sb
        (create_all std_sb [[0x61], [0x62], [0x63]] 1000 (example_image (journal_of []))))
     = Some 49268 \<and>
   fst (cmd_create std_sb foo_txt 1000 1000 1000
          (create_all std_sb [[0x61], [0x62], [0x63]] 1000 (example_image (journal_of []))))
     = Create_Journal_Full \<and>
   map_option nbytes_used
     (read_journal_header std_sb
        (snd (cmd_create std_sb foo_txt 1000 1000 1000
                (create_all std_sb [[0x61], [0x62], [0x63]] 1000 (example_image (journal_of []))))))
     = Some 61580"
proof -
  let ?d0 = "example_image (journal_of [])"
  let ?d1 = "snd (cmd_create std_sb [0x61] 1000 1000 1000 ?d0)"
  let ?d2 = "snd (cmd_create std_sb [0x62] 1000 1000 1000 ?d1)"
  let ?d3 = "snd (cmd_create std_sb [0x63] 1000 1000 1000 ?d2)"
  let ?d4 = "snd (cmd_create std_sb foo_txt 1000 1000 1000 ?d3)"
  have s0: "same_outside_journal std_sb ?d0 ?d0" and l: "length (journal_of []) \<le> 65536"
    and sz: "unat (64 :: u32) div 32 < 128"
    by simp_all
  have h0: "read_journal_header std_sb ?d0 = Some \<lparr>jh_magic = JOURNAL_MAGIC, nbytes_used = 8\<rparr>"
    by (rule read_journal_header_fresh)
  have h1: "read_journal_header std_sb ?d1 = Some \<lparr>jh_magic = JOURNAL_MAGIC, nbytes_used = 16428\<rparr>"
    using create_step_formatted(2) [OF s0 l sz h0] by (simp add: journal_capacity)
  have s1: "same_outside_journal std_sb ?d0 ?d1"
    using s0 l sz h0 by (rule create_step_formatted(3))
  have h2: "read_journal_header std_sb ?d2 = Some \<lparr>jh_magic = JOURNAL_MAGIC, nbytes_used = 32848\<rparr>"
    using create_step_formatted(2) [OF s1 l sz h1] by (simp add: journal_capacity)
  have s2: "same_outside_journal std_sb ?d0 ?d2"
    using s1 l sz h1 by (rule create_step_formatted(3))
  have h3: "read_journal_header std_sb ?d3 = Some \<lparr>jh_magic = JOURNAL_MAGIC, nbytes_used = 49268\<rparr>"
    using create_step_formatted(2) [OF s2 l sz h2] by (simp add: journal_capacity)
  have s3: "same_outside_journal std_sb ?d0 ?d3"
    using s2 l sz h2 by (rule create_step_formatted(3))
  have h4: "read_journal_header std_sb ?d4 = Some \<lparr>jh_magic = JOURNAL_MAGIC, nbytes_used = 61580\<rparr>"
    using create_step_formatted(2) [OF s3 l sz h3] by (simp add: journal_capacity)
  have full: "fst (cmd_create std_sb foo_txt 1000 1000 1000 ?d3) = Create_Journal_Full"
    using create_step_formatted(1) [OF s3 l sz h3] by simp
  show ?thesis
    using h3 h4 full by simp
qed

section \<open>The name of the new directory entry\<close>

lemma nth_store_at:
  assumes "off + length src \<le> length buf" and "i < length buf"
  shows "store_at buf off src ! i = (if off \<le> i \<and> i < off + length src then src ! (i - off) else buf ! i)"
  using assms by (auto simp: store_at_def nth_append min_def)

lemma dirent_name_field:
  assumes len: "length dirb = 4096" and room: "e + 32 \<le> 4096"
    and x: "length x = 4" and nm: "length nm = 27"
  shows "take 28 (drop (e + 4) ((store_at (store_at dirb e x) (e + 4) nm)[e + 4 + 27 := 0])) = nm @ [0]"
proof (rule nth_equalityI)
  have l1: "length (store_at dirb e x) = 4096"
    using len room x by (simp add: length_store_at)
  have l2: "length (store_at (store_at dirb e x) (e + 4) nm) = 4096"
    using l1 room nm by (simp add: length_store_at)
  show "length (take 28 (drop (e + 4) ((store_at (store_at dirb e x) (e + 4) nm)[e + 4 + 27 := 0])))
          = length (nm @ [0])"
    using l2 room nm by simp
  fix i assume "i < length (take 28 (drop (e + 4) ((store_at (store_at dirb e x) (e + 4) nm)[e + 4 + 27 := 0])))"
  then have i: "i < 28" by simp
  show "take 28 (drop (e + 4) ((store_at (store_at dirb e x) (e + 4) nm)[e + 4 + 27 := 0])) ! i
          = (nm @ [0]) ! i"
  proof (cases "i = 27")
    case True
    then show ?thesis
      using l2 room nm by (simp add: nth_append)
  next
    case False
    with i have "i < 27" by simp
    then show ?thesis
      using l1 l2 room nm i by (simp add: nth_append nth_store_at)
  qed
qed

lemma strncpy_c_string:
  assumes "0 \<notin> set src"
  shows "strncpy src 27 @ [0] =
           (if 28 \<le> length src then take 27 src @ [0] else src @ replicate (28 - length src) 0)"
proof -
  have tw: "takeWhile (\<lambda>c. c \<noteq> 0) src = src"
    using assms by (intro takeWhile_eq_all_conv [THEN iffD2]) auto
  show ?thesis
  proof (cases "28 \<le> length src")
    case True
    then show ?thesis by (simp add: strncpy_def tw)
  next
    case False
    then have "28 - length src = Suc (27 - length src)"
      by simp
    then have "replicate (27 - length src) (0 :: u8) @ [0] = replicate (28 - length src) 0"
      by (simp only: replicate_append_same replicate_Suc)
    with False show ?thesis by (simp add: strncpy_def tw)
  qed
qed

lemma pread_sub:
  assumes "pread d off n = Some bs" and "k + m \<le> n"
  shows "pread d (off + k) m = Some (take m (drop k bs))"
proof -
  have "pread d (off + k) (n - k) = Some (drop k bs)"
    using assms by (intro pread_suffix) simp_all
  moreover have "m \<le> n - k"
    using assms by simp
  ultimately show ?thesis
    by (rule pread_prefix)
qed

lemma create_transaction_dir_record:
  assumes "create_transaction sb f t1 t2 t3 d = Inr recs"
  shows "\<exists>rb dirb n r1 r2 r4.
           read_block d (inode_start sb) = Some rb \<and>
           read_block d (dec32 (take 4 (drop 8 rb))) = Some dirb \<and>
           unat (dec32 (take 4 (drop 4 rb))) div 32 * 32 + 32 \<le> 4096 \<and>
           wf_record r1 \<and> wf_record r2 \<and> wf_record r4 \<and>
           r1 \<noteq> Commit_Record \<and> r2 \<noteq> Commit_Record \<and>
           recs = [r1, r2,
                   Data_Record (dec32 (take 4 (drop 8 rb)))
                     ((store_at (store_at dirb (unat (dec32 (take 4 (drop 4 rb))) div 32 * 32)
                                   (enc32 (of_nat n)))
                         (unat (dec32 (take 4 (drop 4 rb))) div 32 * 32 + 4) (strncpy f 27))
                        [unat (dec32 (take 4 (drop 4 rb))) div 32 * 32 + 4 + 27 := 0]),
                   r4, Commit_Record]"
proof -
  have wf: "list_all wf_record recs"
    using create_transaction_Inr [OF assms] by simp
  show ?thesis
    using assms wf
    by (auto simp: create_transaction_def Let_def DIRENT_SIZE_def NAME_LEN_def BLOCK_SIZE_def
             split: option.splits find_result.splits if_splits)
qed

lemma created_on_fresh_example:
  "fst (cmd_create std_sb f t1 t2 t3 (example_image (journal_of []))) = Created"
proof -
  have s: "same_outside_journal std_sb (example_image (journal_of [])) (example_image (journal_of []))"
    and l: "length (journal_of []) \<le> 65536" and sz: "unat (64 :: u32) div 32 < 128"
    by simp_all
  show ?thesis
    using create_step_formatted(1) [OF s l sz read_journal_header_fresh] by simp
qed

text \<open>
  C10. Let the journal header be valid, with a count of at least its own size that lies within
  the image, let the journal region lie below \<open>2^32\<close>, and let the file name be a C string
  (no zero byte inside). When \<open>cmd_create\<close> has journalled its transaction, the 28-byte name
  field of the new directory entry, which is in the payload of the third data record at entry
  index (root size) / 32, holds the first 27 characters of the name and a zero byte if the name
  has 28 characters or more, and otherwise the whole name followed by zero bytes up to 28.
\<close>

theorem cmd_create_stores_name:
  assumes nowrap: "block_off (journal_block sb) + JOURNAL_BLOCKS * BLOCK_SIZE < 2 ^ 32"
    and hdr: "read_journal_header sb d = Some jh" and magic: "jh_magic jh = JOURNAL_MAGIC"
    and used: "JOURNAL_HEADER_SIZE \<le> unat (nbytes_used jh)"
    and len: "block_off (journal_block sb) + unat (nbytes_used jh) \<le> length d"
    and created: "fst (cmd_create sb filename t1 t2 t3 d) = Created"
    and cstr: "0 \<notin> set filename"
  shows "\<exists>rb. read_block d (inode_start sb) = Some rb \<and>
              pread (snd (cmd_create sb filename t1 t2 t3 d))
                (block_off (journal_block sb) + unat (nbytes_used jh) + 2 * DATA_RECORD_SIZE + 8
                   + unat (dec32 (take 4 (drop 4 rb))) div DIRENT_SIZE * DIRENT_SIZE + 4)
                NAME_LEN
              = Some (if NAME_LEN \<le> length filename then take (NAME_LEN - 1) filename @ [0]
                      else filename @ replicate (NAME_LEN - length filename) 0)"
proof -
  let ?J = "block_off (journal_block sb)"
  let ?u = "unat (nbytes_used jh)"
  have nowrap': "?J + 65536 < 2 ^ 32"
    using nowrap by (simp add: journal_capacity)
  have init: "init_journal_if_needed sb d = Some d"
    using hdr magic by (rule init_journal_valid)
  obtain recs where tx: "create_transaction sb filename t1 t2 t3 d = Inr recs"
  proof (cases "create_transaction sb filename t1 t2 t3 d")
    case (Inl out)
    with created init create_transaction_Inl [OF Inl] show ?thesis
      by (auto simp: cmd_create_two_phases)
  next
    case (Inr recs)
    with that show ?thesis .
  qed
  have lens: "map length (map enc_record recs) = [4104, 4104, 4104, 4104, 4]"
    using create_transaction_Inr [OF tx] by simp
  have total: "length (enc_records recs) = 16420"
    using lens by (rule length_enc_records_transaction)
  have fits: "?u + 16420 \<le> 65536"
    using cmd_create_header [OF hdr magic tx] created by (auto split: if_splits)
  obtain d' where
    app: "append_records sb (map enc_record recs) d = (Appended, d')" and
    rd: "pread d' (?J + ?u) (length (enc_records recs)) = Some (enc_records recs)"
    using append_records_layout [OF nowrap' hdr _ _ len, of "map enc_record recs"] used fits
    by (auto simp: enc_records_concat total JOURNAL_HEADER_SIZE_def)
  have d': "snd (cmd_create sb filename t1 t2 t3 d) = d'"
    using init tx app by (simp add: cmd_create_two_phases)
  obtain rb dirb n r1 r2 r4 where
    rb: "read_block d (inode_start sb) = Some rb" and
    dirb: "read_block d (dec32 (take 4 (drop 8 rb))) = Some dirb" and
    room: "unat (dec32 (take 4 (drop 4 rb))) div 32 * 32 + 32 \<le> 4096" and
    wf: "wf_record r1" "wf_record r2" "r1 \<noteq> Commit_Record" "r2 \<noteq> Commit_Record" and
    recs: "recs = [r1, r2,
                   Data_Record (dec32 (take 4 (drop 8 rb)))
                     ((store_at (store_at dirb (unat (dec32 (take 4 (drop 4 rb))) div 32 * 32)
                                   (enc32 (of_nat n)))
                         (unat (dec32 (take 4 (drop 4 rb))) div 32 * 32 + 4) (strncpy filename 27))
                        [unat (dec32 (take 4 (drop 4 rb))) div 32 * 32 + 4 + 27 := 0]),
                   r4, Commit_Record]"
    using create_transaction_dir_record [OF tx] by blast
  define e where "e = unat (dec32 (take 4 (drop 4 rb))) div 32 * 32"
  define img where "img = (store_at (store_at dirb e (enc32 (of_nat n))) (e + 4) (strncpy filename 27))
                            [e + 4 + 27 := 0]"
  have room_e: "e + 32 \<le> 4096"
    using room by (simp add: e_def)
  have l1: "length (enc_record r1) = 4104"
    using wf(1,3) length_enc_record [of r1] by (cases r1) simp_all
  have l2: "length (enc_record r2) = 4104"
    using wf(2,4) length_enc_record [of r2] by (cases r2) simp_all
  note l12 = l1 l2
  have ldir: "length dirb = 4096"
    using dirb by (rule read_block_length)
  have limg: "length img = 4096"
    using ldir room_e unfolding img_def by (simp add: length_store_at)
  have flat: "enc_records recs = enc_record r1 @ enc_record r2 @ enc_data_record (dec32 (take 4 (drop 8 rb))) img
                 @ enc_record r4 @ enc_commit_record"
    unfolding recs img_def e_def by simp
  define k where "k = 8220 + e"
  have "take 28 (drop k (enc_records recs)) = take 28 (drop (e + 4) img)"
    unfolding flat k_def using l12 limg room_e
    by (simp add: enc_data_record_def add.commute)
  also have "\<dots> = strncpy filename 27 @ [0]"
    unfolding img_def using ldir room_e
    by (intro dirent_name_field) simp_all
  finally have field: "take 28 (drop k (enc_records recs)) = strncpy filename 27 @ [0]" .
  have "pread d' (?J + ?u + k) 28 = Some (take 28 (drop k (enc_records recs)))"
    using rd by (rule pread_sub) (use room_e in \<open>simp add: total k_def\<close>)
  then have stored: "pread d' (?J + ?u + k) 28 = Some (strncpy filename 27 @ [0])"
    by (simp only: field)
  have off: "?J + ?u + 2 * DATA_RECORD_SIZE + 8
               + unat (dec32 (take 4 (drop 4 rb))) div DIRENT_SIZE * DIRENT_SIZE + 4 = ?J + ?u + k"
    by (simp add: k_def e_def DATA_RECORD_SIZE_def DIRENT_SIZE_def)
  have name: "(if NAME_LEN \<le> length filename then take (NAME_LEN - 1) filename @ [0]
               else filename @ replicate (NAME_LEN - length filename) 0) = strncpy filename 27 @ [0]"
    using strncpy_c_string [OF cstr] by (simp add: NAME_LEN_def)
  show ?thesis
  proof (intro exI [of _ rb] conjI)
    show "read_block d (inode_start sb) = Some rb"
      by (rule rb)
    show "pread (snd (cmd_create sb filename t1 t2 t3 d))
            (?J + ?u + 2 * DATA_RECORD_SIZE + 8
               + unat (dec32 (take 4 (drop 4 rb))) div DIRENT_SIZE * DIRENT_SIZE + 4)
            NAME_LEN
          = Some (if NAME_LEN \<le> length filename then take (NAME_LEN - 1) filename @ [0]
                  else filename @ replicate (NAME_LEN - length filename) 0)"
      unfolding d' off name using stored by (simp add: NAME_LEN_def)
  qed
qed

theorem cmd_create_stores_name_witness:
  "pread (snd (cmd_create std_sb foo_txt 1000 1000 1000 (example_image (journal_of []))))
     12388 28 = Some (foo_txt @ replicate 21 0) \<and>
   pread (snd (cmd_create std_sb (replicate 30 0x61) 1000 1000 1000 (example_image (journal_of []))))
     12388 28 = Some (replicate 27 0x61 @ [0])"
proof -
  let ?d = "example_image (journal_of [])"
  let ?jh = "\<lparr>jh_magic = JOURNAL_MAGIC, nbytes_used = 8\<rparr>"
  have nowrap: "block_off (journal_block std_sb) + JOURNAL_BLOCKS * BLOCK_SIZE < 2 ^ 32"
    by (simp add: journal_capacity)
  have hdr: "read_journal_header std_sb ?d = Some ?jh"
    by (rule read_journal_header_fresh)
  have magic: "jh_magic ?jh = JOURNAL_MAGIC"
    by simp
  have used: "JOURNAL_HEADER_SIZE \<le> unat (nbytes_used ?jh)"
    by (simp add: JOURNAL_HEADER_SIZE_def)
  have len: "block_off (journal_block std_sb) + unat (nbytes_used ?jh) \<le> length ?d"
    by (simp add: length_example_image)
  have c1: "0 \<notin> set foo_txt" and c2: "0 \<notin> set (replicate 30 (0x61 :: u8))"
    by (simp_all add: foo_txt_def)
  have rb: "read_block ?d (inode_start std_sb) = Some (pad_to 4096 (enc_inode (root_inode 64)))"
    by (simp add: read_block_formatted_19)
  have short: "pread (snd (cmd_create std_sb foo_txt 1000 1000 1000 ?d)) 12388 28
                 = Some (foo_txt @ replicate 21 0)"
    using cmd_create_stores_name [OF nowrap hdr magic used len created_on_fresh_example c1] rb
    by (simp add: root_fields_formatted DATA_RECORD_SIZE_def DIRENT_SIZE_def NAME_LEN_def foo_txt_def)
  have long: "pread (snd (cmd_create std_sb (replicate 30 0x61) 1000 1000 1000 ?d)) 12388 28
                = Some (replicate 27 0x61 @ [0])"
    using cmd_create_stores_name [OF nowrap hdr magic used len created_on_fresh_example c2] rb
    by (simp add: root_fields_formatted DATA_RECORD_SIZE_def DIRENT_SIZE_def NAME_LEN_def)
  from short long show ?thesis
    by simp
qed

end
